theory Spec2Isabelle
  imports Main "HOL-Library.Log_Nat" "HOL-Library.Word"
begin

section \<open>Data model of \<open>ciq.c\<close>\<close>

text \<open>
  \<open>Point\<close> is the C struct of four \<open>int\<close> fields; \<open>Centroid\<close> is a typedef of it.
  \<open>Context\<close> carries the image dimensions, the number of points (\<open>size\<close> in the source,
  \<open>size'\<close> here because \<open>size\<close> is a HOL constant), the number of clusters and the two
  heap arrays, modelled as lists.  A \<open>Context *\<close> is a \<open>Context option\<close>, \<open>None\<close> being
  the null pointer.
\<close>

record Point =
  r :: int
  g :: int
  b :: int
  cluster :: int

type_synonym Centroid = Point

record Context =
  width :: int
  height :: int
  size' :: int
  K :: int
  points :: "Point list"
  centroids :: "Centroid list"

text \<open>
  C leaves the behaviour of some executions undefined.  Every such execution is a value
  \<open>Inl f\<close> of the model, \<open>f\<close> naming what went wrong; a defined execution is \<open>Inr v\<close>.
\<close>

datatype fault = OutOfBounds | DivisionByZero | IntOverflow | BadArraySize

definition elem_at :: "'a list \<Rightarrow> int \<Rightarrow> fault + 'a" where
  "elem_at xs i = (if 0 \<le> i \<and> i < int (length xs) then Inr (xs ! nat i) else Inl OutOfBounds)"

definition MAX_ITERS :: nat where
  "MAX_ITERS = 100"

definition EPSILON :: int where
  "EPSILON = 8"

subsection \<open>Distance\<close>

text \<open>
  \<open>wrap w x\<close> is the value of \<open>x\<close> in a signed integer of \<open>w\<close> bits, in two's complement.
  The three differences are computed in \<open>int\<close>, 32 bits wide, and only then widened to
  \<open>long\<close>; the squares and their sum are computed in \<open>long\<close>, 64 bits wide.  Where C
  leaves a signed overflow undefined the compiled code wraps around, and the model writes
  that out.
\<close>

definition wrap :: "nat \<Rightarrow> int \<Rightarrow> int" where
  "wrap w x = (x + 2 ^ (w - 1)) mod 2 ^ w - 2 ^ (w - 1)"

definition ciq_distance :: "Point \<Rightarrow> Centroid \<Rightarrow> int" where
  "ciq_distance p1 p2 =
     (let dr = wrap 32 (r p1 - r p2); dg = wrap 32 (g p1 - g p2); db = wrap 32 (b p1 - b p2)
      in wrap 64 (dr * dr + dg * dg + db * db))"

subsection \<open>Double arithmetic\<close>

text \<open>
  The source computes two quantities in \<open>double\<close>: the per-cluster factor
  \<open>1.0 / cluster_size[i]\<close> with the products \<open>w[i] * sum\<close>, and the seeding threshold
  \<open>((double) rand() / RAND_MAX) * total_distance\<close>.  A finite double is modelled as a
  pair \<open>(m, e)\<close> standing for \<open>m * 2\<^sup>e\<close>.  Each operation computes the exact result and
  rounds it to a 53-bit significand, to nearest, ties to even (IEEE 754 binary64 in the
  default rounding mode).  The exponent is unbounded: the values of the program stay far
  from the overflow and subnormal ranges.  \<open>rne53\<close> rounds a non-negative significand.
\<close>

type_synonym dbl = "int \<times> int"

definition rne53 :: "int \<Rightarrow> int \<Rightarrow> dbl" where
  "rne53 m e =
     (let l = bitlen m
      in if l \<le> 53 then (m, e)
         else (let k = nat (l - 53); q = m div 2 ^ k; rest = m mod 2 ^ k; half = 2 ^ (k - 1)
               in (if rest > half \<or> (rest = half \<and> odd q) then q + 1 else q, e + int k)))"

definition dbl_round :: "int \<Rightarrow> int \<Rightarrow> dbl" where
  "dbl_round m e = (if m < 0 then (case rne53 (- m) e of (q, e') \<Rightarrow> (- q, e')) else rne53 m e)"

definition dbl_of_int :: "int \<Rightarrow> dbl" where
  "dbl_of_int n = dbl_round n 0"

definition dbl_mul :: "dbl \<Rightarrow> dbl \<Rightarrow> dbl" where
  "dbl_mul x y = dbl_round (fst x * fst y) (snd x + snd y)"

text \<open>
  Division of \<open>x\<close> by a non-zero \<open>y\<close>: the dividend is shifted until the integer quotient
  has at least 55 bits, and a sticky bit records a non-zero remainder, so that rounding the
  quotient rounds the exact value.
\<close>

definition dbl_div :: "dbl \<Rightarrow> dbl \<Rightarrow> dbl" where
  "dbl_div x y =
     (let a = \<bar>fst x\<bar>; d = \<bar>fst y\<bar>;
          s = nat (max 0 (55 + bitlen d - bitlen a));
          q = (a * 2 ^ s) div d;
          sticky = (if (a * 2 ^ s) mod d = 0 then 0 else 1)
      in dbl_round (sgn (fst x) * sgn (fst y) * (2 * q + sticky)) (snd x - snd y - int s - 1))"

text \<open>
  Conversion to an integer type discards the fractional part (towards zero).  C leaves
  the conversion undefined when the result does not fit the target type; the products of
  the program are bounded by the channel values and the distance totals, and the model
  converts without a range check.
\<close>

definition dbl_to_int :: "dbl \<Rightarrow> int" where
  "dbl_to_int x =
     (if 0 \<le> snd x then fst x * 2 ^ nat (snd x)
      else sgn (fst x) * (\<bar>fst x\<bar> div 2 ^ nat (- snd x)))"

subsection \<open>Assigner: \<open>ciq_clustering\<close>\<close>

text \<open>
  The inner loop \<open>for (j = 1; j < K; j++)\<close> with its two locals \<open>mindist\<close> and the
  cluster field of the current point.
\<close>

function scan_centroids :: "Centroid list \<Rightarrow> int \<Rightarrow> Point \<Rightarrow> int \<Rightarrow> int \<times> int \<Rightarrow> fault + (int \<times> int)" where
  "scan_centroids cs k p j (mindist, cl) =
     (if j < k then
        (case elem_at cs j of
           Inl e \<Rightarrow> Inl e
         | Inr c \<Rightarrow>
             (let curdist = ciq_distance p c
              in if curdist < mindist then scan_centroids cs k p (j + 1) (curdist, j)
                 else scan_centroids cs k p (j + 1) (mindist, cl)))
      else Inr (mindist, cl))"
  by pat_completeness auto
termination
  by (relation "measure (\<lambda>(cs, k, p, j, s). nat (k - j))") auto

declare scan_centroids.simps [simp del]

definition assign_point :: "Centroid list \<Rightarrow> int \<Rightarrow> Point \<Rightarrow> fault + Point" where
  "assign_point cs k p =
     (case elem_at cs 0 of
        Inl e \<Rightarrow> Inl e
      | Inr c0 \<Rightarrow>
          (case scan_centroids cs k p 1 (ciq_distance p c0, 0) of
             Inl e \<Rightarrow> Inl e
           | Inr (mindist, cl) \<Rightarrow> Inr (p\<lparr>cluster := cl\<rparr>)))"

text \<open>The outer loop \<open>for (i = 0; i < ctx->size; i++)\<close>.\<close>

function clustering_loop :: "Centroid list \<Rightarrow> int \<Rightarrow> int \<Rightarrow> int \<Rightarrow> Point list \<Rightarrow> fault + Point list" where
  "clustering_loop cs k n i ps =
     (if i < n then
        (case elem_at ps i of
           Inl e \<Rightarrow> Inl e
         | Inr p \<Rightarrow>
             (case assign_point cs k p of
                Inl e \<Rightarrow> Inl e
              | Inr p' \<Rightarrow> clustering_loop cs k n (i + 1) (ps[nat i := p'])))
      else Inr ps)"
  by pat_completeness auto
termination
  by (relation "measure (\<lambda>(cs, k, n, i, ps). nat (n - i))") auto

declare clustering_loop.simps [simp del]

fun ciq_clustering :: "Context option \<Rightarrow> fault + Context option" where
  "ciq_clustering None = Inr None"
| "ciq_clustering (Some ctx) =
     (case clustering_loop (centroids ctx) (K ctx) (size' ctx) 0 (points ctx) of
        Inl e \<Rightarrow> Inl e
      | Inr ps \<Rightarrow> Inr (Some (ctx\<lparr>points := ps\<rparr>)))"

subsection \<open>Centroid Updater: \<open>ciq_update_centroids\<close>\<close>

text \<open>
  The four variable-length arrays \<open>sum_r\<close>, \<open>sum_g\<close>, \<open>sum_b\<close> and \<open>cluster_size\<close>
  are lists of \<open>K\<close> entries; a cluster label outside them is an out-of-bounds write.
  Integers are unbounded in the model: a channel read from an image is a byte, and sums of
  fewer than \<open>2\<^sup>3\<^sup>1\<close> such values do not overflow a 64-bit \<open>long\<close>.
\<close>

type_synonym accs = "int list \<times> int list \<times> int list \<times> int list"

function accumulate :: "Point list \<Rightarrow> int \<Rightarrow> int \<Rightarrow> accs \<Rightarrow> fault + accs" where
  "accumulate ps n i (sum_r, sum_g, sum_b, cluster_size) =
     (if i < n then
        (case elem_at ps i of
           Inl e \<Rightarrow> Inl e
         | Inr p \<Rightarrow>
             (let j = cluster p
              in if 0 \<le> j \<and> j < int (length cluster_size) then
                   accumulate ps n (i + 1)
                     (sum_r[nat j := sum_r ! nat j + r p],
                      sum_g[nat j := sum_g ! nat j + g p],
                      sum_b[nat j := sum_b ! nat j + b p],
                      cluster_size[nat j := cluster_size ! nat j + 1])
                 else Inl OutOfBounds))
      else Inr (sum_r, sum_g, sum_b, cluster_size))"
  by pat_completeness auto
termination
  by (relation "measure (\<lambda>(ps, n, i, s). nat (n - i))") auto

declare accumulate.simps [simp del]

text \<open>
  \<open>weight n\<close> is \<open>w[i] = 1.0 / cluster_size[i]\<close> and \<open>scaled w s\<close> is the conversion of
  \<open>w[i] * sum\<close> to \<open>int\<close>.  For an empty cluster \<open>w[i]\<close> is infinite in the source and
  never read; the model computes the weight only where it is read.
\<close>

definition weight :: "int \<Rightarrow> dbl" where
  "weight n = dbl_div (1, 0) (dbl_of_int n)"

definition scaled :: "dbl \<Rightarrow> int \<Rightarrow> int" where
  "scaled w s = dbl_to_int (dbl_mul w (dbl_of_int s))"

text \<open>
  The first statement of the update loop's body: the local \<open>new\<close> gets fresh channels
  only when the cluster has members, and keeps whatever it held otherwise.
\<close>

definition refresh :: "Centroid \<Rightarrow> int \<Rightarrow> int \<Rightarrow> int \<Rightarrow> int \<Rightarrow> Centroid" where
  "refresh new n sr sg sb =
     (if n > 0 then
        new\<lparr>r := scaled (weight n) sr, g := scaled (weight n) sg, b := scaled (weight n) sb\<rparr>
      else new)"

function update_loop :: "int \<Rightarrow> accs \<Rightarrow> int \<Rightarrow> Centroid \<times> bool \<times> Centroid list \<Rightarrow> fault + (Centroid \<times> bool \<times> Centroid list)" where
  "update_loop k (sum_r, sum_g, sum_b, cluster_size) i (new, changed, cents) =
     (if i < k then
        (let new' = refresh new (cluster_size ! nat i) (sum_r ! nat i) (sum_g ! nat i) (sum_b ! nat i)
         in case elem_at cents i of
              Inl e \<Rightarrow> Inl e
            | Inr c \<Rightarrow>
                update_loop k (sum_r, sum_g, sum_b, cluster_size) (i + 1)
                  (new', changed \<or> ciq_distance c new' > EPSILON, cents[nat i := new']))
      else Inr (new, changed, cents))"
  by pat_completeness auto
termination
  by (relation "measure (\<lambda>(k, s, i, st). nat (k - i))") auto

declare update_loop.simps [simp del]

text \<open>
  The local \<open>new\<close> is declared without an initialiser.  Its indeterminate initial contents
  are the parameter \<open>new0\<close> of the model.
\<close>

fun ciq_update_centroids :: "Centroid \<Rightarrow> Context option \<Rightarrow> fault + (bool \<times> Context option)" where
  "ciq_update_centroids new0 None = Inr (False, None)"
| "ciq_update_centroids new0 (Some ctx) =
     (if K ctx < 1 then Inl BadArraySize
      else
        (let zeros = replicate (nat (K ctx)) 0
         in case accumulate (points ctx) (size' ctx) 0 (zeros, zeros, zeros, zeros) of
              Inl e \<Rightarrow> Inl e
            | Inr acc \<Rightarrow>
                (case update_loop (K ctx) acc 0 (new0, False, centroids ctx) of
                   Inl e \<Rightarrow> Inl e
                 | Inr (new, changed, cents) \<Rightarrow> Inr (changed, Some (ctx\<lparr>centroids := cents\<rparr>)))))"

subsection \<open>Centroid Seeder: \<open>ciq_init_centroids\<close>\<close>

text \<open>
  The first inner loop fills the scratch array \<open>distances\<close> and sums it.  The centroid
  it measures against is \<open>ctx->centroids[i - 1]\<close>, passed here as the array and the
  index \<open>prev\<close>.
\<close>

function seed_weights :: "Point list \<Rightarrow> Centroid list \<Rightarrow> int \<Rightarrow> int \<Rightarrow> int \<Rightarrow> int list \<times> int \<Rightarrow> fault + (int list \<times> int)" where
  "seed_weights ps cents prev n j (distances, total_distance) =
     (if j < n then
        (case elem_at ps j of
           Inl e \<Rightarrow> Inl e
         | Inr p \<Rightarrow>
             (case elem_at cents prev of
                Inl e \<Rightarrow> Inl e
              | Inr c \<Rightarrow>
                  seed_weights ps cents prev n (j + 1)
                    (distances @ [ciq_distance p c], total_distance + ciq_distance p c)))
      else Inr (distances, total_distance))"
  by pat_completeness auto
termination
  by (relation "measure (\<lambda>(ps, cents, prev, n, j, s). nat (n - j))") auto

declare seed_weights.simps [simp del]

text \<open>
  The second inner loop returns the first point at which the running sum reaches the
  threshold, or nothing when the loop ends without reaching its \<open>break\<close>.
\<close>

function pick :: "Point list \<Rightarrow> int list \<Rightarrow> int \<Rightarrow> int \<Rightarrow> int \<Rightarrow> int \<Rightarrow> fault + Point option" where
  "pick ps distances random_choice n j cumulative_probability =
     (if j < n then
        (case elem_at distances j of
           Inl e \<Rightarrow> Inl e
         | Inr d \<Rightarrow>
             (if cumulative_probability + d \<ge> random_choice then
                (case elem_at ps j of Inl e \<Rightarrow> Inl e | Inr p \<Rightarrow> Inr (Some p))
              else pick ps distances random_choice n (j + 1) (cumulative_probability + d)))
      else Inr None)"
  by pat_completeness auto
termination
  by (relation "measure (\<lambda>(ps, ds, rc, n, j, c). nat (n - j))") auto

declare pick.simps [simp del]

text \<open>
  \<open>threshold rand_max x total\<close> is \<open>((double) x / RAND_MAX) * total_distance\<close> converted
  to \<open>long\<close>, for a value \<open>x\<close> returned by \<open>rand()\<close>.  \<open>RAND_MAX\<close> comes from the C
  library and is a parameter of the model.
\<close>

definition threshold :: "int \<Rightarrow> int \<Rightarrow> int \<Rightarrow> int" where
  "threshold rand_max x total_distance =
     dbl_to_int (dbl_mul (dbl_div (dbl_of_int x) (dbl_of_int rand_max)) (dbl_of_int total_distance))"

text \<open>A compound literal \<open>(Centroid){r, g, b}\<close> zero-initialises the cluster field.\<close>

definition centroid_of :: "Point \<Rightarrow> Centroid" where
  "centroid_of p = \<lparr>r = r p, g = g p, b = b p, cluster = 0\<rparr>"

text \<open>
  The random source is the sequence \<open>rs\<close> of values returned by successive calls of
  \<open>rand()\<close>.  The Seeder is its only consumer and draws once per centroid, so centroid
  \<open>i\<close> uses \<open>rs i\<close>.  With \<open>RAND_MAX \<le> 0\<close> the quotient is not finite and its conversion
  to \<open>long\<close> is undefined.
\<close>

function seed_loop :: "int \<Rightarrow> (nat \<Rightarrow> int) \<Rightarrow> Point list \<Rightarrow> int \<Rightarrow> int \<Rightarrow> int \<Rightarrow> Centroid list \<Rightarrow> fault + Centroid list" where
  "seed_loop rand_max rs ps n k i cents =
     (if i < k then
        (case seed_weights ps cents (i - 1) n 0 ([], 0) of
           Inl e \<Rightarrow> Inl e
         | Inr (distances, total_distance) \<Rightarrow>
             (if rand_max \<le> 0 then Inl DivisionByZero
              else
                (case pick ps distances (threshold rand_max (rs (nat i)) total_distance) n 0 0 of
                   Inl e \<Rightarrow> Inl e
                 | Inr None \<Rightarrow> seed_loop rand_max rs ps n k (i + 1) cents
                 | Inr (Some p) \<Rightarrow>
                     (if i < int (length cents) then
                        seed_loop rand_max rs ps n k (i + 1) (cents[nat i := centroid_of p])
                      else Inl OutOfBounds))))
      else Inr cents)"
  by pat_completeness auto
termination
  by (relation "measure (\<lambda>(rm, rs, ps, n, k, i, cents). nat (k - i))") auto

declare seed_loop.simps [simp del]

text \<open>
  C's remainder truncates towards zero: its sign is the sign of the dividend.
\<close>

definition c_rem :: "int \<Rightarrow> int \<Rightarrow> int" where
  "c_rem a d = sgn a * (\<bar>a\<bar> mod \<bar>d\<bar>)"

text \<open>
  \<open>alloc_ok\<close> tells whether \<open>malloc\<close> returned the scratch buffer.  \<open>rand() % ctx->size\<close>
  divides by zero for an empty image.
\<close>

fun ciq_init_centroids :: "bool \<Rightarrow> int \<Rightarrow> (nat \<Rightarrow> int) \<Rightarrow> Context option \<Rightarrow> fault + (bool \<times> Context option)" where
  "ciq_init_centroids alloc_ok rand_max rs None = Inr (False, None)"
| "ciq_init_centroids alloc_ok rand_max rs (Some ctx) =
     (if \<not> alloc_ok then Inr (False, Some ctx)
      else if size' ctx = 0 then Inl DivisionByZero
      else
        (case elem_at (points ctx) (c_rem (rs 0) (size' ctx)) of
           Inl e \<Rightarrow> Inl e
         | Inr p \<Rightarrow>
             (if centroids ctx = [] then Inl OutOfBounds
              else
                (case seed_loop rand_max rs (points ctx) (size' ctx) (K ctx) 1
                        ((centroids ctx)[0 := centroid_of p]) of
                   Inl e \<Rightarrow> Inl e
                 | Inr cents \<Rightarrow> Inr (True, Some (ctx\<lparr>centroids := cents\<rparr>))))))"

subsection \<open>Orchestrator: \<open>ciq_quantize\<close>\<close>

text \<open>
  The loop \<open>for (i = 0; i < MAX_ITERS; i++)\<close> with its \<open>break\<close>.  Each call of the Updater
  has a fresh local \<open>new\<close>; \<open>junk i\<close> is its initial contents in iteration \<open>i\<close>.  Besides
  the context the model returns the number of iterations it has run, which the source does
  not keep.  The progress lines printed on the standard output are not modelled.
\<close>

function iterate :: "(nat \<Rightarrow> Centroid) \<Rightarrow> nat \<Rightarrow> Context option \<Rightarrow> fault + (Context option \<times> nat)" where
  "iterate junk i ctx =
     (if i < MAX_ITERS then
        (case ciq_clustering ctx of
           Inl e \<Rightarrow> Inl e
         | Inr assigned \<Rightarrow>
             (case ciq_update_centroids (junk i) assigned of
                Inl e \<Rightarrow> Inl e
              | Inr (changed, updated) \<Rightarrow>
                  (if \<not> changed then Inr (updated, i + 1) else iterate junk (i + 1) updated)))
      else Inr (ctx, i))"
  by pat_completeness auto
termination
  by (relation "measure (\<lambda>(junk, i, ctx). MAX_ITERS - i)") auto

declare iterate.simps [simp del]

fun ciq_quantize :: "bool \<Rightarrow> int \<Rightarrow> (nat \<Rightarrow> int) \<Rightarrow> (nat \<Rightarrow> Centroid) \<Rightarrow> Context option \<Rightarrow> fault + (bool \<times> Context option \<times> nat)" where
  "ciq_quantize alloc_ok rand_max rs junk None = Inr (False, None, 0)"
| "ciq_quantize alloc_ok rand_max rs junk (Some ctx) =
     (case ciq_init_centroids alloc_ok rand_max rs (Some ctx) of
        Inl e \<Rightarrow> Inl e
      | Inr (ok, ctx') \<Rightarrow>
          (if \<not> ok then Inr (False, ctx', 0)
           else
             (case iterate junk 0 ctx' of
                Inl e \<Rightarrow> Inl e
              | Inr (ctx'', n) \<Rightarrow> Inr (True, ctx'', n))))"

subsection \<open>Loading: \<open>ciq_init\<close>\<close>

text \<open>
  A byte is an \<open>unsigned char\<close>.  A PPM file is represented by the fields of its header,
  as \<open>fscanf\<close> delivers them, and its pixel data: the bytes after the single white-space
  character that ends the header.  A header that \<open>fscanf\<close> cannot convert, and file names,
  are outside the model.
\<close>

type_synonym byte = "8 word"

record PPM =
  magic :: string
  ppm_width :: int
  ppm_height :: int
  maxval :: int
  raster :: "byte list"

definition zero_point :: Point where
  "zero_point = \<lparr>r = 0, g = 0, b = 0, cluster = 0\<rparr>"

text \<open>
  The header is read with the format \<open>"%s\\n%d %d\\n%d\\n"\<close>.  Its last directive is white
  space, so \<open>fscanf\<close> consumes the white space that ends the header and every white-space
  byte after it: bytes 9 to 13 and 32 at the start of the pixel data are skipped.
\<close>

definition is_space :: "byte \<Rightarrow> bool" where
  "is_space x \<longleftrightarrow> x = 9 \<or> x = 10 \<or> x = 11 \<or> x = 12 \<or> x = 13 \<or> x = 32"

text \<open>
  \<open>fread\<close> of one byte into a local: the byte at the file position, or nothing at the end
  of the file, where the local keeps what it held.  The result of \<open>fread\<close> is not looked at.
\<close>

definition fetch :: "byte list \<Rightarrow> int \<Rightarrow> byte \<Rightarrow> byte" where
  "fetch bytes pos old = (if 0 \<le> pos \<and> pos < int (length bytes) then bytes ! nat pos else old)"

text \<open>
  The reading loop.  Its three locals are declared without initialiser; the model carries
  their contents from one iteration to the next, starting from the parameter of \<open>ciq_init\<close>
  that stands for what they hold at first.
\<close>

function read_pixels :: "byte list \<Rightarrow> int \<Rightarrow> int \<Rightarrow> byte \<times> byte \<times> byte \<Rightarrow> Point list \<Rightarrow> fault + Point list" where
  "read_pixels bytes n i (x, y, z) ps =
     (if i < n then
        (let x' = fetch bytes (3 * i) x;
             y' = fetch bytes (3 * i + 1) y;
             z' = fetch bytes (3 * i + 2) z
         in if i < int (length ps) then
              read_pixels bytes n (i + 1) (x', y', z')
                (ps[nat i := \<lparr>r = uint x', g = uint y', b = uint z', cluster = - 1\<rparr>])
            else Inl OutOfBounds)
      else Inr ps)"
  by pat_completeness auto
termination
  by (relation "measure (\<lambda>(bytes, n, i, loc, ps). nat (n - i))") auto

declare read_pixels.simps [simp del]

text \<open>
  The three flags tell whether the three calls of \<open>malloc\<close> succeed; \<open>file\<close> is \<open>None\<close>
  when \<open>fopen\<close> fails.  The product \<open>width * height\<close> is computed in \<open>int\<close>.  Both arrays
  are zeroed by \<open>memset\<close>.
\<close>

definition ciq_init :: "bool \<Rightarrow> PPM option \<Rightarrow> bool \<Rightarrow> bool \<Rightarrow> byte \<times> byte \<times> byte \<Rightarrow> int \<Rightarrow> fault + Context option" where
  "ciq_init ctx_ok file points_ok centroids_ok stale k =
     (if \<not> ctx_ok then Inr None
      else
        (case file of
           None \<Rightarrow> Inr None
         | Some f \<Rightarrow>
             (if magic f \<noteq> ''P6'' \<or> maxval f \<noteq> 255 then Inr None
              else if ppm_width f * ppm_height f < - (2 ^ 31) \<or> 2 ^ 31 \<le> ppm_width f * ppm_height f
                then Inl IntOverflow
              else if \<not> points_ok \<or> \<not> centroids_ok then Inr None
              else
                (case read_pixels (dropWhile is_space (raster f)) (ppm_width f * ppm_height f) 0 stale
                        (replicate (nat (ppm_width f * ppm_height f)) zero_point) of
                   Inl e \<Rightarrow> Inl e
                 | Inr ps \<Rightarrow>
                     Inr (Some \<lparr>width = ppm_width f, height = ppm_height f,
                                size' = ppm_width f * ppm_height f, K = k, points = ps,
                                centroids = replicate (nat k) zero_point\<rparr>)))))"

subsection \<open>Writing: \<open>ciq_remap\<close>\<close>

text \<open>
  The files a run has created: the output image and \<open>palette.pal\<close>.  Assigning an \<open>int\<close>
  to an \<open>unsigned char\<close> keeps its low eight bits.
\<close>

record Files =
  image_file :: "PPM option"
  palette_file :: "byte list option"

definition no_files :: Files where
  "no_files = \<lparr>image_file = None, palette_file = None\<rparr>"

definition rgb_bytes :: "Centroid \<Rightarrow> byte list" where
  "rgb_bytes c = [word_of_int (r c), word_of_int (g c), word_of_int (b c)]"

function remap_pixels :: "Point list \<Rightarrow> Centroid list \<Rightarrow> int \<Rightarrow> int \<Rightarrow> byte list \<Rightarrow> fault + byte list" where
  "remap_pixels ps cents n i out =
     (if i < n then
        (case elem_at ps i of
           Inl e \<Rightarrow> Inl e
         | Inr p \<Rightarrow>
             (case elem_at cents (cluster p) of
                Inl e \<Rightarrow> Inl e
              | Inr c \<Rightarrow> remap_pixels ps cents n (i + 1) (out @ rgb_bytes c)))
      else Inr out)"
  by pat_completeness auto
termination
  by (relation "measure (\<lambda>(ps, cents, n, i, out). nat (n - i))") auto

declare remap_pixels.simps [simp del]

function palette_entries :: "Centroid list \<Rightarrow> int \<Rightarrow> int \<Rightarrow> byte list \<Rightarrow> fault + byte list" where
  "palette_entries cents k i out =
     (if i < k then
        (case elem_at cents i of
           Inl e \<Rightarrow> Inl e
         | Inr c \<Rightarrow> palette_entries cents k (i + 1) (out @ rgb_bytes c))
      else Inr out)"
  by pat_completeness auto
termination
  by (relation "measure (\<lambda>(cents, k, i, out). nat (k - i))") auto

declare palette_entries.simps [simp del]

fun ciq_remap :: "bool \<Rightarrow> bool \<Rightarrow> Context option \<Rightarrow> fault + (bool \<times> Files)" where
  "ciq_remap out_ok pal_ok None = Inr (False, no_files)"
| "ciq_remap out_ok pal_ok (Some ctx) =
     (if \<not> out_ok then Inr (False, no_files)
      else
        (case remap_pixels (points ctx) (centroids ctx) (size' ctx) 0 [] of
           Inl e \<Rightarrow> Inl e
         | Inr body \<Rightarrow>
             (if \<not> pal_ok then
                Inr (False,
                     \<lparr>image_file = Some \<lparr>magic = ''P6'', ppm_width = width ctx, ppm_height = height ctx,
                                         maxval = 255, raster = body\<rparr>,
                      palette_file = None\<rparr>)
              else
                (case palette_entries (centroids ctx) (K ctx) 0 [] of
                   Inl e \<Rightarrow> Inl e
                 | Inr pal \<Rightarrow>
                     Inr (True,
                          \<lparr>image_file = Some \<lparr>magic = ''P6'', ppm_width = width ctx,
                                              ppm_height = height ctx, maxval = 255, raster = body\<rparr>,
                           palette_file = Some pal\<rparr>)))))"

subsection \<open>The program: \<open>ciq_quanization\<close> and \<open>main\<close>\<close>

text \<open>
  Everything a run takes from its environment: the outcome of each allocation, the input
  file, what the three locals of the reading loop hold at first, the C library's random
  numbers, the initial contents of the Updater's local in each iteration, and whether the
  two output files can be opened for writing.
\<close>

record Env =
  alloc_ctx :: bool
  input_file :: "PPM option"
  alloc_points :: bool
  alloc_centroids :: bool
  env_stale :: "byte \<times> byte \<times> byte"
  alloc_distances :: bool
  env_rand_max :: int
  env_rand :: "nat \<Rightarrow> int"
  env_junk :: "nat \<Rightarrow> Centroid"
  output_writable :: bool
  palette_writable :: bool

text \<open>The results of \<open>ciq_quantize\<close> and of \<open>ciq_remap\<close> are not looked at.\<close>

definition ciq_quanization :: "Env \<Rightarrow> int \<Rightarrow> fault + (bool \<times> Files)" where
  "ciq_quanization env k =
     (case ciq_init (alloc_ctx env) (input_file env) (alloc_points env) (alloc_centroids env)
             (env_stale env) k of
        Inl e \<Rightarrow> Inl e
      | Inr None \<Rightarrow> Inr (False, no_files)
      | Inr (Some ctx) \<Rightarrow>
          (case ciq_quantize (alloc_distances env) (env_rand_max env) (env_rand env) (env_junk env)
                  (Some ctx) of
             Inl e \<Rightarrow> Inl e
           | Inr (ok, ctx', n) \<Rightarrow>
               (case ciq_remap (output_writable env) (palette_writable env) ctx' of
                  Inl e \<Rightarrow> Inl e
                | Inr (written, files) \<Rightarrow> Inr (True, files))))"

text \<open>
  \<open>main\<close> gets \<open>argc\<close> and, when a fourth argument is present, its value under \<open>atoi\<close>;
  it returns the exit code.
\<close>

definition main :: "Env \<Rightarrow> nat \<Rightarrow> int option \<Rightarrow> fault + (int \<times> Files)" where
  "main env argc k_arg =
     (if argc < 3 then Inr (1, no_files)
      else
        (case ciq_quanization env (case k_arg of None \<Rightarrow> 256 | Some k \<Rightarrow> k) of
           Inl e \<Rightarrow> Inl e
         | Inr (ok, files) \<Rightarrow> Inr (if \<not> ok then 1 else 0, files)))"

text \<open>
  A cluster is the list of points carrying its label; its size and channel sums are what
  the accumulation loop computes.
\<close>

definition members :: "Point list \<Rightarrow> int \<Rightarrow> Point list" where
  "members ps j = filter (\<lambda>p. cluster p = j) ps"

definition cluster_count :: "Point list \<Rightarrow> int \<Rightarrow> int" where
  "cluster_count ps j = int (length (members ps j))"

definition cluster_total :: "(Point \<Rightarrow> int) \<Rightarrow> Point list \<Rightarrow> int \<Rightarrow> int" where
  "cluster_total f ps j = sum_list (map f (members ps j))"

definition labelled :: "Point list \<Rightarrow> int \<Rightarrow> bool" where
  "labelled ps k \<longleftrightarrow> list_all (\<lambda>p. 0 \<le> cluster p \<and> cluster p < k) ps"

definition well_formed :: "Context \<Rightarrow> bool" where
  "well_formed ctx \<longleftrightarrow>
     size' ctx = int (length (points ctx)) \<and> K ctx = int (length (centroids ctx))"

text \<open>
  What the two loops of the Assigner leave in the cluster field, in terms of the distance
  the code computes.
\<close>

definition scan_result :: "Centroid list \<Rightarrow> Point \<Rightarrow> int \<Rightarrow> bool" where
  "scan_result cs p c \<longleftrightarrow>
     0 \<le> c \<and> c < int (length cs) \<and>
     (\<forall>j < length cs. ciq_distance p (cs ! nat c) \<le> ciq_distance p (cs ! j)) \<and>
     (\<forall>j < nat c. ciq_distance p (cs ! nat c) < ciq_distance p (cs ! j))"







text \<open>
  Example contexts.  In \<open>ex_stale\<close> both points carry label 0, so clusters 1 and 2 are
  empty.  \<open>ex_const\<close> is a 7 by 7 image of the single colour (1, 1, 1) with one cluster,
  as it stands after seeding and the first Assigner pass.
\<close>

definition ex_stale :: Context where
  "ex_stale =
     \<lparr>width = 2, height = 1, size' = 2, K = 3,
      points = [\<lparr>r = 0, g = 0, b = 0, cluster = 0\<rparr>, \<lparr>r = 20, g = 0, b = 0, cluster = 0\<rparr>],
      centroids = [\<lparr>r = 10, g = 0, b = 0, cluster = 0\<rparr>, \<lparr>r = 200, g = 0, b = 0, cluster = 0\<rparr>,
                   \<lparr>r = 100, g = 0, b = 0, cluster = 0\<rparr>]\<rparr>"

definition ex_const :: Context where
  "ex_const =
     \<lparr>width = 7, height = 7, size' = 49, K = 1,
      points = replicate 49 \<lparr>r = 1, g = 1, b = 1, cluster = 0\<rparr>,
      centroids = [\<lparr>r = 1, g = 1, b = 1, cluster = 0\<rparr>]\<rparr>"

text \<open>
  The Seeder as the specification words it: the weight of a point is its squared distance
  to the nearest of the centroids chosen so far.
\<close>

definition nearest_chosen :: "Point \<Rightarrow> Centroid list \<Rightarrow> int" where
  "nearest_chosen p chosen =
     (case map (ciq_distance p) chosen of [] \<Rightarrow> 0 | d # ds \<Rightarrow> fold min ds d)"

text \<open>
  A sample random source: the values \<open>rand()\<close> returns first in the GNU C library when
  \<open>srand\<close> has never been called, as in this program, and that library's \<open>RAND_MAX\<close>.
\<close>

definition sample_rand_max :: int where
  "sample_rand_max = 2147483647"

definition sample_rand :: "nat \<Rightarrow> int" where
  "sample_rand i = (if i = 0 then 1804289383 else if i = 1 then 846930886 else 1681692777)"

text \<open>A three-pixel image with three distinct colours, loaded for \<open>K = 3\<close>.\<close>

definition ex_seed :: Context where
  "ex_seed =
     \<lparr>width = 3, height = 1, size' = 3, K = 3,
      points = [\<lparr>r = 100, g = 0, b = 0, cluster = -1\<rparr>, \<lparr>r = 0, g = 0, b = 0, cluster = -1\<rparr>,
                \<lparr>r = 60, g = 0, b = 0, cluster = -1\<rparr>],
      centroids = replicate 3 \<lparr>r = 0, g = 0, b = 0, cluster = 0\<rparr>\<rparr>"

text \<open>The colours of a point array.\<close>

definition colours :: "Point list \<Rightarrow> (int \<times> int \<times> int) list" where
  "colours ps = map (\<lambda>p. (r p, g p, b p)) ps"

text \<open>
  What no operation of the engine may alter: the dimensions, the two counts, the colour of
  every point and the number of centroids.
\<close>

definition same_frame :: "Context \<Rightarrow> Context \<Rightarrow> bool" where
  "same_frame ctx ctx' \<longleftrightarrow>
     width ctx' = width ctx \<and> height ctx' = height ctx \<and> size' ctx' = size' ctx \<and>
     K ctx' = K ctx \<and> colours (points ctx') = colours (points ctx) \<and>
     length (centroids ctx') = length (centroids ctx)"

text \<open>
  A run of the whole program: a 7 by 1 image, three clusters, every allocation succeeding,
  the sample random source and both output files writable.
\<close>

definition ex_image :: PPM where
  "ex_image =
     \<lparr>magic = ''P6'', ppm_width = 7, ppm_height = 1, maxval = 255,
      raster = [21, 0, 0,  10, 0, 0,  21, 0, 0,  20, 0, 0,  7, 0, 0,  30, 0, 0,  21, 0, 0]\<rparr>"

definition ex_env :: Env where
  "ex_env =
     \<lparr>alloc_ctx = True, input_file = Some ex_image, alloc_points = True, alloc_centroids = True,
      env_stale = (0, 0, 0), alloc_distances = True, env_rand_max = sample_rand_max, env_rand = sample_rand,
      env_junk = (\<lambda>i. \<lparr>r = 15, g = 0, b = 0, cluster = 0\<rparr>),
      output_writable = True, palette_writable = True\<rparr>"

definition ex_output :: PPM where
  "ex_output =
     \<lparr>magic = ''P6'', ppm_width = 7, ppm_height = 1, maxval = 255,
      raster = [22, 0, 0,  8, 0, 0,  22, 0, 0,  22, 0, 0,  8, 0, 0,  22, 0, 0,  22, 0, 0]\<rparr>"

text \<open>The 7 by 7 image of the single colour (1, 1, 1), as a file.\<close>

definition ex_const_image :: PPM where
  "ex_const_image =
     \<lparr>magic = ''P6'', ppm_width = 7, ppm_height = 7, maxval = 255, raster = replicate 147 1\<rparr>"

definition ex_files :: Files where
  "ex_files = \<lparr>image_file = Some ex_output, palette_file = Some [15, 0, 0,  8, 0, 0,  22, 0, 0]\<rparr>"


definition close :: "real \<Rightarrow> real \<Rightarrow> real \<Rightarrow> bool" where
  "close eps x t \<longleftrightarrow> \<bar>x - t\<bar> \<le> eps * t"



text \<open>
  The run of the Orchestrator on \<open>ex_seed\<close> with the sample random source: the seeded
  context, the context after the first Assigner pass and the context after the first
  Updater pass, which the second iteration leaves as it is.
\<close>

definition ex_seeded :: Context where
  "ex_seeded =
     ex_seed\<lparr>centroids :=
       [\<lparr>r = 0, g = 0, b = 0, cluster = 0\<rparr>, \<lparr>r = 100, g = 0, b = 0, cluster = 0\<rparr>,
        \<lparr>r = 0, g = 0, b = 0, cluster = 0\<rparr>]\<rparr>"

definition ex_assigned :: Context where
  "ex_assigned =
     ex_seeded\<lparr>points :=
       [\<lparr>r = 100, g = 0, b = 0, cluster = 1\<rparr>, \<lparr>r = 0, g = 0, b = 0, cluster = 0\<rparr>,
        \<lparr>r = 60, g = 0, b = 0, cluster = 1\<rparr>]\<rparr>"

definition ex_updated :: Context where
  "ex_updated =
     ex_assigned\<lparr>centroids :=
       [\<lparr>r = 0, g = 0, b = 0, cluster = 0\<rparr>, \<lparr>r = 80, g = 0, b = 0, cluster = 0\<rparr>,
        \<lparr>r = 80, g = 0, b = 0, cluster = 0\<rparr>]\<rparr>"

section \<open>Verification\<close>

subsection \<open>Arithmetic and loading on known inputs\<close>

text \<open>
  Three known values check the rounding: the double nearest to one tenth, the exact
  product \<open>(1.0 / 3) * 3 = 1\<close>, and the product \<open>(1.0 / 49) * 49\<close>, which is the double just
  below 1.
\<close>

lemma dbl_known_values:
  "dbl_div (1, 0) (dbl_of_int 10) = (7205759403792794, - 56)"
  "dbl_to_int (dbl_mul (dbl_div (1, 0) (dbl_of_int 3)) (dbl_of_int 3)) = 1"
  "dbl_mul (dbl_div (1, 0) (dbl_of_int 49)) (dbl_of_int 49) = (9007199254740991, - 53)"
  by code_simp+

text \<open>
  The channel differences of \<open>ciq_distance\<close> are taken in \<open>int\<close>: the difference
  \<open>2147483647 - (- 2)\<close> wraps to \<open>- 2147483647\<close> before it is squared.  For byte colours
  nothing wraps.
\<close>

lemma ciq_distance_known_values:
  "ciq_distance \<lparr>r = 2147483647, g = 0, b = 0, cluster = 0\<rparr> \<lparr>r = - 2, g = 0, b = 0, cluster = 0\<rparr>
     = 4611686014132420609"
  "ciq_distance \<lparr>r = 255, g = 0, b = 7, cluster = 0\<rparr> \<lparr>r = 0, g = 255, b = 9, cluster = 0\<rparr>
     = 130054"
  by code_simp+

text \<open>
  A file that ends in the middle of a pixel: the bytes that are there are read, the
  remaining channels keep what the locals held.  White space at the start of the pixel
  data is consumed with the header.
\<close>

lemma read_pixels_known_values:
  "read_pixels [1, 2, 3, 4] 3 0 (7, 8, 9) (replicate 3 zero_point) =
     Inr [\<lparr>r = 1, g = 2, b = 3, cluster = - 1\<rparr>, \<lparr>r = 4, g = 2, b = 3, cluster = - 1\<rparr>,
          \<lparr>r = 4, g = 2, b = 3, cluster = - 1\<rparr>]"
  "read_pixels [] 1 0 (7, 8, 9) (replicate 1 zero_point) = Inr [\<lparr>r = 7, g = 8, b = 9, cluster = - 1\<rparr>]"
  "ciq_init True (Some \<lparr>magic = ''P6'', ppm_width = 1, ppm_height = 1, maxval = 255,
                        raster = [10, 32, 5, 6, 7]\<rparr>) True True (0, 0, 0) 2 =
     Inr (Some \<lparr>width = 1, height = 1, size' = 1, K = 2,
                points = [\<lparr>r = 5, g = 6, b = 7, cluster = - 1\<rparr>],
                centroids = [zero_point, zero_point]\<rparr>)"
  by code_simp+

subsection \<open>Assigner\<close>

lemma scan_centroids_inv:
  assumes "k = int (length cs)" "1 \<le> j" "j \<le> k" "0 \<le> cl" "cl < j"
    "mindist = ciq_distance p (cs ! nat cl)"
    "\<forall>i < nat j. mindist \<le> ciq_distance p (cs ! i)"
    "\<forall>i < nat cl. mindist < ciq_distance p (cs ! i)"
  shows "\<exists>m c. scan_centroids cs k p j (mindist, cl) = Inr (m, c) \<and> scan_result cs p c"
  using assms
proof (induction cs k p j "(mindist, cl)" arbitrary: mindist cl rule: scan_centroids.induct)
  case (1 cs k p j mindist cl)
  show ?case
  proof (cases "j < k")
    case False
    with "1.prems" have jk: "j = k" by simp
    have "scan_result cs p cl"
      unfolding scan_result_def using "1.prems" jk by auto
    with False show ?thesis by (subst scan_centroids.simps) simp
  next
    case True
    with "1.prems" have at: "elem_at cs j = Inr (cs ! nat j)" by (simp add: elem_at_def)
    let ?cur = "ciq_distance p (cs ! nat j)"
    have lt: "\<And>i. i < nat (j + 1) \<longleftrightarrow> i < nat j \<or> i = nat j" using "1.prems"(2) by auto
    show ?thesis
    proof (cases "?cur < mindist")
      case c: True
      have "\<exists>m c. scan_centroids cs k p (j + 1) (?cur, j) = Inr (m, c) \<and> scan_result cs p c"
        apply (rule "1.hyps"(1)[OF True at refl c])
        using "1.prems" True c by (auto simp: lt)
      with True at c show ?thesis by (subst scan_centroids.simps) simp
    next
      case c: False
      have "\<exists>m c. scan_centroids cs k p (j + 1) (mindist, cl) = Inr (m, c) \<and> scan_result cs p c"
        apply (rule "1.hyps"(2)[OF True at refl c])
        using "1.prems" True c by (auto simp: lt)
      with True at c show ?thesis by (subst scan_centroids.simps) simp
    qed
  qed
qed

lemma assign_point_spec:
  assumes "k = int (length cs)" "1 \<le> k"
  shows "\<exists>c. assign_point cs k p = Inr (p\<lparr>cluster := c\<rparr>) \<and> scan_result cs p c"
proof -
  from assms have ne: "cs \<noteq> []" by (cases cs) simp_all
  from ne have at0: "elem_at cs 0 = Inr (cs ! 0)" by (simp add: elem_at_def)
  have "\<exists>m c. scan_centroids cs k p 1 (ciq_distance p (cs ! nat 0), 0) = Inr (m, c) \<and> scan_result cs p c"
    by (rule scan_centroids_inv) (use assms ne in auto)
  then show ?thesis using at0 by (auto simp: assign_point_def)
qed

lemma clustering_loop_spec:
  assumes "k = int (length cs)" "1 \<le> k" "n = int (length ps)" "0 \<le> i" "i \<le> n"
  shows "\<exists>ps'. clustering_loop cs k n i ps = Inr ps' \<and> length ps' = length ps \<and>
           (\<forall>m < length ps. if m < nat i then ps' ! m = ps ! m
               else (\<exists>c. ps' ! m = (ps ! m)\<lparr>cluster := c\<rparr> \<and> scan_result cs (ps ! m) c))"
  using assms
proof (induction cs k n i ps rule: clustering_loop.induct)
  case (1 cs k n i ps)
  show ?case
  proof (cases "i < n")
    case False
    with "1.prems" show ?thesis by (subst clustering_loop.simps) auto
  next
    case True
    with "1.prems" have at: "elem_at ps i = Inr (ps ! nat i)" by (simp add: elem_at_def)
    from assign_point_spec[OF "1.prems"(1,2), of "ps ! nat i"]
    obtain c where c: "assign_point cs k (ps ! nat i) = Inr ((ps ! nat i)\<lparr>cluster := c\<rparr>)"
      and nl: "scan_result cs (ps ! nat i) c" by blast
    let ?ps1 = "ps[nat i := (ps ! nat i)\<lparr>cluster := c\<rparr>]"
    have "\<exists>ps'. clustering_loop cs k n (i + 1) ?ps1 = Inr ps' \<and> length ps' = length ?ps1 \<and>
           (\<forall>m < length ?ps1. if m < nat (i + 1) then ps' ! m = ?ps1 ! m
               else (\<exists>c. ps' ! m = (?ps1 ! m)\<lparr>cluster := c\<rparr> \<and> scan_result cs (?ps1 ! m) c))"
      by (rule "1.IH"[OF True at c]) (use "1.prems" True in auto)
    then obtain ps' where ps': "clustering_loop cs k n (i + 1) ?ps1 = Inr ps'" "length ps' = length ps"
      and all: "\<forall>m < length ps. if m < nat (i + 1) then ps' ! m = ?ps1 ! m
               else (\<exists>c. ps' ! m = (?ps1 ! m)\<lparr>cluster := c\<rparr> \<and> scan_result cs (?ps1 ! m) c)"
      by auto
    have eq: "clustering_loop cs k n i ps = Inr ps'"
      using True at c ps' by (subst clustering_loop.simps) simp
    have "\<forall>m < length ps. if m < nat i then ps' ! m = ps ! m
               else (\<exists>c. ps' ! m = (ps ! m)\<lparr>cluster := c\<rparr> \<and> scan_result cs (ps ! m) c)"
    proof (intro allI impI)
      fix m assume m: "m < length ps"
      from all m have a: "if m < nat (i + 1) then ps' ! m = ?ps1 ! m
               else (\<exists>c. ps' ! m = (?ps1 ! m)\<lparr>cluster := c\<rparr> \<and> scan_result cs (?ps1 ! m) c)" by blast
      consider "m < nat i" | "m = nat i" | "nat i < m" by linarith
      then show "if m < nat i then ps' ! m = ps ! m
               else (\<exists>c. ps' ! m = (ps ! m)\<lparr>cluster := c\<rparr> \<and> scan_result cs (ps ! m) c)"
      proof cases
        case 1 with a "1.prems" show ?thesis by auto
      next
        case 2 with a "1.prems" m nl show ?thesis by auto
      next
        case 3
        with "1.prems" have "\<not> m < nat (i + 1)" "\<not> m < nat i" "m \<noteq> nat i" by auto
        with a m show ?thesis by simp
      qed
    qed
    with eq ps' show ?thesis by blast
  qed
qed









subsection \<open>Centroid Updater\<close>

lemma members_Cons:
  "members (p # ps) j = (if cluster p = j then p # members ps j else members ps j)"
  by (simp add: members_def)

lemma cluster_count_Cons:
  "cluster_count (p # ps) j = (if cluster p = j then 1 else 0) + cluster_count ps j"
  by (simp add: cluster_count_def members_Cons)

lemma cluster_total_Cons:
  "cluster_total f (p # ps) j = (if cluster p = j then f p else 0) + cluster_total f ps j"
  by (simp add: cluster_total_def members_Cons)

lemma accumulate_spec:
  assumes "n = int (length ps)" "0 \<le> i" "i \<le> n"
    and "length sr = k" "length sg = k" "length sb = k" "length cs = k"
    and "labelled (drop (nat i) ps) (int k)"
  shows "\<exists>sr' sg' sb' cs'. accumulate ps n i (sr, sg, sb, cs) = Inr (sr', sg', sb', cs') \<and>
           length sr' = k \<and> length sg' = k \<and> length sb' = k \<and> length cs' = k \<and>
           (\<forall>j < k. sr' ! j = sr ! j + cluster_total r (drop (nat i) ps) (int j) \<and>
                     sg' ! j = sg ! j + cluster_total g (drop (nat i) ps) (int j) \<and>
                     sb' ! j = sb ! j + cluster_total b (drop (nat i) ps) (int j) \<and>
                     cs' ! j = cs ! j + cluster_count (drop (nat i) ps) (int j))"
  using assms
proof (induction ps n i "(sr, sg, sb, cs)" arbitrary: sr sg sb cs rule: accumulate.induct)
  case (1 ps n i sr sg sb cs)
  show ?case
  proof (cases "i < n")
    case False
    with "1.prems" have "drop (nat i) ps = []" by simp
    with False "1.prems" show ?thesis
      by (subst accumulate.simps) (simp add: cluster_total_def cluster_count_def members_def)
  next
    case True
    with "1.prems" have lt: "nat i < length ps" by simp
    then have at: "elem_at ps i = Inr (ps ! nat i)" using "1.prems" by (simp add: elem_at_def)
    have dr: "drop (nat i) ps = ps ! nat i # drop (nat (i + 1)) ps"
      using lt "1.prems"(2) by (simp add: Cons_nth_drop_Suc nat_add_distrib)
    let ?p = "ps ! nat i"
    let ?j = "cluster ?p"
    from "1.prems"(8) dr have j: "0 \<le> ?j" "?j < int k" and rest: "labelled (drop (nat (i + 1)) ps) (int k)"
      by (simp_all add: labelled_def)
    have j': "0 \<le> ?j \<and> ?j < int (length cs)" using j "1.prems" by simp
    let ?sr = "sr[nat ?j := sr ! nat ?j + r ?p]"
    let ?sg = "sg[nat ?j := sg ! nat ?j + g ?p]"
    let ?sb = "sb[nat ?j := sb ! nat ?j + b ?p]"
    let ?cs = "cs[nat ?j := cs ! nat ?j + 1]"
    have "\<exists>sr' sg' sb' cs'. accumulate ps n (i + 1) (?sr, ?sg, ?sb, ?cs) = Inr (sr', sg', sb', cs') \<and>
           length sr' = k \<and> length sg' = k \<and> length sb' = k \<and> length cs' = k \<and>
           (\<forall>j < k. sr' ! j = ?sr ! j + cluster_total r (drop (nat (i + 1)) ps) (int j) \<and>
                     sg' ! j = ?sg ! j + cluster_total g (drop (nat (i + 1)) ps) (int j) \<and>
                     sb' ! j = ?sb ! j + cluster_total b (drop (nat (i + 1)) ps) (int j) \<and>
                     cs' ! j = ?cs ! j + cluster_count (drop (nat (i + 1)) ps) (int j))"
      by (rule "1.hyps"[OF True at refl j']) (use "1.prems" True rest in auto)
    then obtain sr' sg' sb' cs' where
      res: "accumulate ps n (i + 1) (?sr, ?sg, ?sb, ?cs) = Inr (sr', sg', sb', cs')"
      and len: "length sr' = k" "length sg' = k" "length sb' = k" "length cs' = k"
      and vals: "\<And>j. j < k \<Longrightarrow> sr' ! j = ?sr ! j + cluster_total r (drop (nat (i + 1)) ps) (int j) \<and>
                     sg' ! j = ?sg ! j + cluster_total g (drop (nat (i + 1)) ps) (int j) \<and>
                     sb' ! j = ?sb ! j + cluster_total b (drop (nat (i + 1)) ps) (int j) \<and>
                     cs' ! j = ?cs ! j + cluster_count (drop (nat (i + 1)) ps) (int j)"
      by blast
    have eq: "accumulate ps n i (sr, sg, sb, cs) = Inr (sr', sg', sb', cs')"
      using True at j' res by (subst accumulate.simps) (simp add: Let_def)
    have "sr' ! m = sr ! m + cluster_total r (drop (nat i) ps) (int m) \<and>
          sg' ! m = sg ! m + cluster_total g (drop (nat i) ps) (int m) \<and>
          sb' ! m = sb ! m + cluster_total b (drop (nat i) ps) (int m) \<and>
          cs' ! m = cs ! m + cluster_count (drop (nat i) ps) (int m)" if m: "m < k" for m
    proof (cases "m = nat ?j")
      case True
      then have "int m = ?j" using j by simp
      with vals[OF m] True m "1.prems"(4-7) show ?thesis
        by (simp add: dr cluster_total_Cons cluster_count_Cons)
    next
      case False
      then have "int m \<noteq> ?j" by auto
      with vals[OF m] False m "1.prems"(4-7) show ?thesis
        by (simp add: dr cluster_total_Cons cluster_count_Cons)
    qed
    with eq len show ?thesis by blast
  qed
qed

lemma update_loop_spec:
  assumes "k = int (length cents)" "0 \<le> i" "i \<le> k"
  shows "\<exists>new' ch' cents'. update_loop k (sr, sg, sb, cs) i (new, ch, cents) = Inr (new', ch', cents') \<and>
           length cents' = length cents \<and>
           (\<forall>m < nat i. cents' ! m = cents ! m) \<and>
           (\<forall>m. nat i \<le> m \<and> m < length cents \<longrightarrow>
                cents' ! m = refresh (if m = nat i then new else cents' ! (m - 1))
                               (cs ! m) (sr ! m) (sg ! m) (sb ! m)) \<and>
           (ch' \<longleftrightarrow> ch \<or> (\<exists>m. nat i \<le> m \<and> m < length cents \<and>
                               ciq_distance (cents ! m) (cents' ! m) > EPSILON))"
  using assms
proof (induction k "(sr, sg, sb, cs)" i "(new, ch, cents)" arbitrary: new ch cents
       rule: update_loop.induct)
  case (1 k i new ch cents)
  show ?case
  proof (cases "i < k")
    case False
    with "1.prems" show ?thesis by (subst update_loop.simps) auto
  next
    case True
    with "1.prems" have lt: "nat i < length cents" by simp
    then have at: "elem_at cents i = Inr (cents ! nat i)" using "1.prems" by (simp add: elem_at_def)
    let ?new = "refresh new (cs ! nat i) (sr ! nat i) (sg ! nat i) (sb ! nat i)"
    let ?ch = "ch \<or> ciq_distance (cents ! nat i) ?new > EPSILON"
    let ?cents = "cents[nat i := ?new]"
    have ni: "nat (i + 1) = Suc (nat i)" using "1.prems"(2) by simp
    have "\<exists>new' ch' cents'. update_loop k (sr, sg, sb, cs) (i + 1) (?new, ?ch, ?cents) = Inr (new', ch', cents') \<and>
           length cents' = length ?cents \<and>
           (\<forall>m < nat (i + 1). cents' ! m = ?cents ! m) \<and>
           (\<forall>m. nat (i + 1) \<le> m \<and> m < length ?cents \<longrightarrow>
                cents' ! m = refresh (if m = nat (i + 1) then ?new else cents' ! (m - 1))
                               (cs ! m) (sr ! m) (sg ! m) (sb ! m)) \<and>
           (ch' \<longleftrightarrow> ?ch \<or> (\<exists>m. nat (i + 1) \<le> m \<and> m < length ?cents \<and>
                               ciq_distance (?cents ! m) (cents' ! m) > EPSILON))"
      by (rule "1.hyps"[OF True refl at]) (use "1.prems" True in auto)
    then obtain new' ch' cents' where
      res: "update_loop k (sr, sg, sb, cs) (i + 1) (?new, ?ch, ?cents) = Inr (new', ch', cents')"
      and len: "length cents' = length cents"
      and low: "\<And>m. m < Suc (nat i) \<Longrightarrow> cents' ! m = ?cents ! m"
      and high: "\<And>m. Suc (nat i) \<le> m \<Longrightarrow> m < length cents \<Longrightarrow>
                cents' ! m = refresh (if m = Suc (nat i) then ?new else cents' ! (m - 1))
                               (cs ! m) (sr ! m) (sg ! m) (sb ! m)"
      and chg: "ch' \<longleftrightarrow> ?ch \<or> (\<exists>m. Suc (nat i) \<le> m \<and> m < length cents \<and>
                               ciq_distance (?cents ! m) (cents' ! m) > EPSILON)"
      unfolding ni by auto
    have eq: "update_loop k (sr, sg, sb, cs) i (new, ch, cents) = Inr (new', ch', cents')"
      using True at res by (subst update_loop.simps) (simp add: Let_def)
    have here: "cents' ! nat i = ?new" using low[of "nat i"] lt by simp
    have a: "\<forall>m < nat i. cents' ! m = cents ! m"
      using low by simp
    have b: "\<forall>m. nat i \<le> m \<and> m < length cents \<longrightarrow>
                cents' ! m = refresh (if m = nat i then new else cents' ! (m - 1))
                               (cs ! m) (sr ! m) (sg ! m) (sb ! m)"
    proof (intro allI impI)
      fix m assume m: "nat i \<le> m \<and> m < length cents"
      show "cents' ! m = refresh (if m = nat i then new else cents' ! (m - 1))
                               (cs ! m) (sr ! m) (sg ! m) (sb ! m)"
      proof (cases "m = nat i")
        case True with here show ?thesis by simp
      next
        case False
        with m have m': "Suc (nat i) \<le> m" "m < length cents" by auto
        show ?thesis
        proof (cases "m = Suc (nat i)")
          case True
          with high[OF m'] here show ?thesis by simp
        next
          case False
          with high[OF m'] \<open>m \<noteq> nat i\<close> show ?thesis by simp
        qed
      qed
    qed
    have c: "ch' \<longleftrightarrow> ch \<or> (\<exists>m. nat i \<le> m \<and> m < length cents \<and>
                               ciq_distance (cents ! m) (cents' ! m) > EPSILON)"
    proof -
      have "(\<exists>m. nat i \<le> m \<and> m < length cents \<and> ciq_distance (cents ! m) (cents' ! m) > EPSILON)
            \<longleftrightarrow> ciq_distance (cents ! nat i) ?new > EPSILON \<or>
                (\<exists>m. Suc (nat i) \<le> m \<and> m < length cents \<and> ciq_distance (?cents ! m) (cents' ! m) > EPSILON)"
        (is "?L \<longleftrightarrow> ?R")
      proof
        assume ?L
        then obtain m where m: "nat i \<le> m" "m < length cents" "ciq_distance (cents ! m) (cents' ! m) > EPSILON"
          by blast
        show ?R
        proof (cases "m = nat i")
          case True with m here show ?thesis by simp
        next
          case False
          with m have "Suc (nat i) \<le> m" "?cents ! m = cents ! m" by auto
          with m show ?thesis by auto
        qed
      next
        assume ?R
        then show ?L
        proof
          assume "ciq_distance (cents ! nat i) ?new > EPSILON"
          with here lt show ?L by (intro exI[of _ "nat i"]) simp
        next
          assume "\<exists>m. Suc (nat i) \<le> m \<and> m < length cents \<and> ciq_distance (?cents ! m) (cents' ! m) > EPSILON"
          then obtain m where m: "Suc (nat i) \<le> m" "m < length cents" "ciq_distance (?cents ! m) (cents' ! m) > EPSILON"
            by blast
          then have "?cents ! m = cents ! m" by simp
          with m show ?L by (intro exI[of _ m]) simp
        qed
      qed
      with chg show ?thesis by blast
    qed
    from eq len a b c show ?thesis by blast
  qed
qed

lemma ciq_update_centroids_spec:
  assumes "well_formed ctx" "1 \<le> K ctx" "labelled (points ctx) (K ctx)"
  shows "\<exists>changed cents'.
           ciq_update_centroids new0 (Some ctx) = Inr (changed, Some (ctx\<lparr>centroids := cents'\<rparr>)) \<and>
           length cents' = length (centroids ctx) \<and>
           (\<forall>m < length cents'.
              cents' ! m = refresh (if m = 0 then new0 else cents' ! (m - 1))
                             (cluster_count (points ctx) (int m))
                             (cluster_total r (points ctx) (int m))
                             (cluster_total g (points ctx) (int m))
                             (cluster_total b (points ctx) (int m))) \<and>
           (changed \<longleftrightarrow> (\<exists>m < length cents'.
                          ciq_distance (centroids ctx ! m) (cents' ! m) > EPSILON))"
proof -
  let ?k = "nat (K ctx)"
  let ?z = "replicate ?k (0::int)"
  from assms have len: "size' ctx = int (length (points ctx))" "K ctx = int (length (centroids ctx))"
    by (simp_all add: well_formed_def)
  have lab: "labelled (drop (nat 0) (points ctx)) (int ?k)" using assms by simp
  from accumulate_spec[OF len(1) _ _ _ _ _ _ lab, of ?z ?z ?z ?z]
  obtain sr sg sb cs where
    acc: "accumulate (points ctx) (size' ctx) 0 (?z, ?z, ?z, ?z) = Inr (sr, sg, sb, cs)"
    and vals: "\<And>j. j < ?k \<Longrightarrow> sr ! j = cluster_total r (points ctx) (int j) \<and>
                     sg ! j = cluster_total g (points ctx) (int j) \<and>
                     sb ! j = cluster_total b (points ctx) (int j) \<and>
                     cs ! j = cluster_count (points ctx) (int j)"
    using len by auto
  from update_loop_spec[OF len(2), of 0 sr sg sb cs new0 False]
  obtain new' ch' cents' where
    upd: "update_loop (K ctx) (sr, sg, sb, cs) 0 (new0, False, centroids ctx) = Inr (new', ch', cents')"
    and l: "length cents' = length (centroids ctx)"
    and v: "\<And>m. m < length (centroids ctx) \<Longrightarrow>
                cents' ! m = refresh (if m = 0 then new0 else cents' ! (m - 1))
                               (cs ! m) (sr ! m) (sg ! m) (sb ! m)"
    and c: "ch' \<longleftrightarrow> (\<exists>m. m < length (centroids ctx) \<and>
                               ciq_distance (centroids ctx ! m) (cents' ! m) > EPSILON)"
    using len by auto
  have eq: "ciq_update_centroids new0 (Some ctx) = Inr (ch', Some (ctx\<lparr>centroids := cents'\<rparr>))"
    using assms(2) acc upd by (simp add: Let_def)
  have "cents' ! m = refresh (if m = 0 then new0 else cents' ! (m - 1))
                             (cluster_count (points ctx) (int m))
                             (cluster_total r (points ctx) (int m))
                             (cluster_total g (points ctx) (int m))
                             (cluster_total b (points ctx) (int m))" if "m < length cents'" for m
  proof -
    from that l len have "m < ?k" by simp
    from vals[OF this] v[of m] that l show ?thesis by simp
  qed
  then have v': "\<forall>m < length cents'.
              cents' ! m = refresh (if m = 0 then new0 else cents' ! (m - 1))
                             (cluster_count (points ctx) (int m))
                             (cluster_total r (points ctx) (int m))
                             (cluster_total g (points ctx) (int m))
                             (cluster_total b (points ctx) (int m))"
    by blast
  have c': "ch' \<longleftrightarrow> (\<exists>m < length cents'.
                          ciq_distance (centroids ctx ! m) (cents' ! m) > EPSILON)"
    using c l by simp
  from eq l v' c' show ?thesis by blast
qed



lemma ex_stale_wf: "well_formed ex_stale \<and> 1 \<le> K ex_stale \<and> labelled (points ex_stale) (K ex_stale)"
  by (simp add: well_formed_def ex_stale_def labelled_def)

lemma ex_stale_counts:
  "cluster_count (points ex_stale) 0 = 2" "cluster_count (points ex_stale) 1 = 0"
  "cluster_count (points ex_stale) 2 = 0" "cluster_total r (points ex_stale) 0 = 20"
  by (simp_all add: cluster_count_def cluster_total_def members_def ex_stale_def)

lemma scaled_half_20: "scaled (weight 2) 20 = 10"
  by code_simp

text \<open>
  C3.  The claim that an empty cluster keeps its centroid fails.  In \<open>ex_stale\<close>
  cluster 1 is empty and its centroid has red channel 200; after the call, whatever the
  initial contents of \<open>new\<close>, the red channel at index 1 is 10, the value just computed
  for cluster 0.
\<close>
theorem empty_cluster_centroid_overwritten:
  "cluster_count (points ex_stale) 1 = 0 \<and>
   (\<exists>changed cents'.
      ciq_update_centroids new0 (Some ex_stale) = Inr (changed, Some (ex_stale\<lparr>centroids := cents'\<rparr>)) \<and>
      r (centroids ex_stale ! 1) = 200 \<and> r (cents' ! 1) = 10)"
proof -
  from ciq_update_centroids_spec[of ex_stale new0] ex_stale_wf
  obtain changed cents' where
    eq: "ciq_update_centroids new0 (Some ex_stale) = Inr (changed, Some (ex_stale\<lparr>centroids := cents'\<rparr>))"
    and l: "length cents' = length (centroids ex_stale)"
    and v: "\<And>m. m < length cents' \<Longrightarrow>
              cents' ! m = refresh (if m = 0 then new0 else cents' ! (m - 1))
                             (cluster_count (points ex_stale) (int m))
                             (cluster_total r (points ex_stale) (int m))
                             (cluster_total g (points ex_stale) (int m))
                             (cluster_total b (points ex_stale) (int m))"
    by blast
  from l have l3: "length cents' = 3" by (simp add: ex_stale_def)
  from v[of 0] l3 have "r (cents' ! 0) = 10"
    by (simp add: ex_stale_counts refresh_def scaled_half_20)
  moreover from v[of 1] l3 have "cents' ! 1 = cents' ! 0"
    by (simp add: ex_stale_counts refresh_def)
  ultimately have "r (cents' ! 1) = 10" by simp
  moreover have "r (centroids ex_stale ! 1) = 200" by (simp add: ex_stale_def)
  ultimately show ?thesis using eq ex_stale_counts(2) by blast
qed

text \<open>
  C5.  The claim that a non-empty cluster gets the mean of its members fails.  The 49
  members of the only cluster of \<open>ex_const\<close> all have colour (1, 1, 1), every channel
  sum is 49, and the mean is exactly 1.  The product \<open>(1.0 / 49) * 49\<close> rounds to the
  double just below 1, whose conversion to \<open>int\<close> is 0: the centroid becomes (0, 0, 0).
  Run on that image with \<open>K = 1\<close>, the program writes an all-zero image and the palette
  (0, 0, 0).
\<close>
theorem reciprocal_mean_off_by_one:
  "cluster_count (points ex_const) 0 = 49 \<and>
   cluster_total r (points ex_const) 0 = 49 \<and>
   cluster_total g (points ex_const) 0 = 49 \<and>
   cluster_total b (points ex_const) 0 = 49 \<and>
   ciq_update_centroids \<lparr>r = 0, g = 0, b = 0, cluster = 0\<rparr> (Some ex_const) =
     Inr (False, Some (ex_const\<lparr>centroids := [\<lparr>r = 0, g = 0, b = 0, cluster = 0\<rparr>]\<rparr>)) \<and>
   main (ex_env\<lparr>input_file := Some ex_const_image\<rparr>) 4 (Some 1) =
     Inr (0, \<lparr>image_file = Some \<lparr>magic = ''P6'', ppm_width = 7, ppm_height = 7, maxval = 255,
                                   raster = replicate 147 0\<rparr>,
              palette_file = Some [0, 0, 0]\<rparr>)"
  by code_simp

subsection \<open>Rounding of the mean\<close>














lemma cluster_count_nonneg: "0 \<le> cluster_count ps j"
  by (simp add: cluster_count_def)







subsection \<open>Seeder and Orchestrator\<close>

lemma seed_weights_defined:
  assumes "n = int (length ps)" "0 \<le> j" "j \<le> n" "0 \<le> prev" "prev < int (length cents)"
  shows "\<exists>ds t. seed_weights ps cents prev n j (ds0, t0) = Inr (ds, t) \<and>
           length ds = length ds0 + nat (n - j)"
  using assms
proof (induction ps cents prev n j "(ds0, t0)" arbitrary: ds0 t0 rule: seed_weights.induct)
  case (1 ps cents prev n j ds0 t0)
  show ?case
  proof (cases "j < n")
    case False
    with "1.prems" show ?thesis by (subst seed_weights.simps) simp
  next
    case True
    with "1.prems" have at: "elem_at ps j = Inr (ps ! nat j)" by (simp add: elem_at_def)
    from "1.prems" have atc: "elem_at cents prev = Inr (cents ! nat prev)" by (simp add: elem_at_def)
    let ?d = "ciq_distance (ps ! nat j) (cents ! nat prev)"
    have "\<exists>ds t. seed_weights ps cents prev n (j + 1) (ds0 @ [?d], t0 + ?d) = Inr (ds, t) \<and>
           length ds = length (ds0 @ [?d]) + nat (n - (j + 1))"
      by (rule "1.hyps"[OF True at atc]) (use "1.prems" True in auto)
    then obtain ds t where "seed_weights ps cents prev n (j + 1) (ds0 @ [?d], t0 + ?d) = Inr (ds, t)"
      and "length ds = length (ds0 @ [?d]) + nat (n - (j + 1))" by blast
    moreover have "length (ds0 @ [?d]) + nat (n - (j + 1)) = length ds0 + nat (n - j)"
      using True by simp
    ultimately show ?thesis using True at atc by (subst seed_weights.simps) simp
  qed
qed

lemma pick_defined:
  assumes "n = int (length ps)" "length ds = length ps" "0 \<le> j" "j \<le> n"
  shows "\<exists>res. pick ps ds rc n j cum = Inr res"
  using assms
proof (induction ps ds rc n j cum rule: pick.induct)
  case (1 ps ds rc n j cum)
  show ?case
  proof (cases "j < n")
    case False
    then show ?thesis by (subst pick.simps) simp
  next
    case True
    with "1.prems" have at: "elem_at ds j = Inr (ds ! nat j)" "elem_at ps j = Inr (ps ! nat j)"
      by (simp_all add: elem_at_def)
    show ?thesis
    proof (cases "cum + ds ! nat j \<ge> rc")
      case c: True
      with True at show ?thesis by (subst pick.simps) simp
    next
      case c: False
      have "\<exists>res. pick ps ds rc n (j + 1) (cum + ds ! nat j) = Inr res"
        by (rule "1.IH"[OF True at(1) c]) (use "1.prems" True in auto)
      with True at c show ?thesis by (subst pick.simps) simp
    qed
  qed
qed

lemma seed_loop_defined:
  assumes "n = int (length ps)" "k = int (length cents)" "1 \<le> i" "i \<le> k" "0 < rand_max"
  shows "\<exists>cents'. seed_loop rand_max rs ps n k i cents = Inr cents' \<and> length cents' = length cents"
  using assms
proof (induction rand_max rs ps n k i cents rule: seed_loop.induct)
  case (1 rand_max rs ps n k i cents)
  show ?case
  proof (cases "i < k")
    case False
    then show ?thesis by (subst seed_loop.simps) simp
  next
    case True
    from seed_weights_defined[OF "1.prems"(1), of 0 "i - 1" cents "[]" 0] "1.prems" True
    obtain ds t where sw: "seed_weights ps cents (i - 1) n 0 ([], 0) = Inr (ds, t)"
      and lds: "length ds = length ps" by auto
    have nz: "\<not> rand_max \<le> 0" using "1.prems" by simp
    from pick_defined[OF "1.prems"(1) lds, of 0 "threshold rand_max (rs (nat i)) t" 0] "1.prems"
    obtain res where pk: "pick ps ds (threshold rand_max (rs (nat i)) t) n 0 0 = Inr res" by auto
    show ?thesis
    proof (cases res)
      case None
      have "\<exists>cents'. seed_loop rand_max rs ps n k (i + 1) cents = Inr cents' \<and> length cents' = length cents"
        by (rule "1.IH"(1)[OF True sw refl nz pk[unfolded None]]) (use "1.prems" True in auto)
      with True sw nz pk None show ?thesis by (subst seed_loop.simps) simp
    next
      case (Some p)
      have il: "i < int (length cents)" using True "1.prems" by simp
      have "\<exists>cents'. seed_loop rand_max rs ps n k (i + 1) (cents[nat i := centroid_of p]) = Inr cents' \<and>
              length cents' = length (cents[nat i := centroid_of p])"
        by (rule "1.IH"(2)[OF True sw refl nz pk[unfolded Some] refl il]) (use "1.prems" True in auto)
      with True sw nz pk Some il show ?thesis by (subst seed_loop.simps) simp
    qed
  qed
qed

lemma c_rem_range: "0 \<le> a \<Longrightarrow> 0 < d \<Longrightarrow> 0 \<le> c_rem a d \<and> c_rem a d < d"
  by (cases "a = 0") (simp_all add: c_rem_def)

lemma ciq_init_centroids_defined:
  assumes "well_formed ctx" "1 \<le> K ctx" "1 \<le> size' ctx" "0 < rand_max" "0 \<le> rs 0"
  shows "\<exists>cents'. ciq_init_centroids True rand_max rs (Some ctx) = Inr (True, Some (ctx\<lparr>centroids := cents'\<rparr>)) \<and>
           length cents' = length (centroids ctx)"
proof -
  from assms have len: "size' ctx = int (length (points ctx))" "K ctx = int (length (centroids ctx))"
    by (simp_all add: well_formed_def)
  from assms(3) have pos: "0 < size' ctx" by simp
  from c_rem_range[OF assms(5) pos] len(1)
  have at: "elem_at (points ctx) (c_rem (rs 0) (size' ctx)) = Inr (points ctx ! nat (c_rem (rs 0) (size' ctx)))"
    unfolding elem_at_def by auto
  let ?p = "points ctx ! nat (c_rem (rs 0) (size' ctx))"
  from assms(2) len have ne: "centroids ctx \<noteq> []" by auto
  from seed_loop_defined[OF len(1), of "K ctx" "(centroids ctx)[0 := centroid_of ?p]" 1 rand_max rs]
    assms len
  obtain cents' where sl: "seed_loop rand_max rs (points ctx) (size' ctx) (K ctx) 1
                        ((centroids ctx)[0 := centroid_of ?p]) = Inr cents'"
    and l: "length cents' = length (centroids ctx)" by auto
  have "ciq_init_centroids True rand_max rs (Some ctx) = Inr (True, Some (ctx\<lparr>centroids := cents'\<rparr>))"
    using at ne assms(3) sl by simp
  with l show ?thesis by blast
qed

lemma same_frame_refl: "same_frame ctx ctx"
  by (simp add: same_frame_def)

lemma same_frame_trans: "same_frame a c \<Longrightarrow> same_frame c d \<Longrightarrow> same_frame a d"
  by (simp add: same_frame_def)

lemma same_frame_wf: "well_formed ctx \<Longrightarrow> same_frame ctx ctx' \<Longrightarrow> well_formed ctx'"
proof -
  assume wf: "well_formed ctx" and sf: "same_frame ctx ctx'"
  from sf have "length (colours (points ctx')) = length (colours (points ctx))"
    by (simp add: same_frame_def)
  then have "length (points ctx') = length (points ctx)" by (simp add: colours_def)
  with wf sf show ?thesis by (simp add: well_formed_def same_frame_def)
qed

lemma ciq_clustering_frame:
  assumes "well_formed ctx" "1 \<le> K ctx"
  shows "\<exists>ctx'. ciq_clustering (Some ctx) = Inr (Some ctx') \<and> same_frame ctx ctx' \<and>
           centroids ctx' = centroids ctx \<and> labelled (points ctx') (K ctx)"
proof -
  from assms have len: "size' ctx = int (length (points ctx))" "K ctx = int (length (centroids ctx))"
    by (simp_all add: well_formed_def)
  from clustering_loop_spec[OF len(2) assms(2) len(1), of 0]
  obtain ps' where cl: "clustering_loop (centroids ctx) (K ctx) (size' ctx) 0 (points ctx) = Inr ps'"
    and l: "length ps' = length (points ctx)"
    and v: "\<And>m. m < length (points ctx) \<Longrightarrow> \<exists>c. ps' ! m = (points ctx ! m)\<lparr>cluster := c\<rparr> \<and>
           scan_result (centroids ctx) (points ctx ! m) c"
    using len(1) by auto
  have col: "colours ps' = colours (points ctx)"
    unfolding colours_def
  proof (rule nth_equalityI)
    show "length (map (\<lambda>p. (r p, g p, b p)) ps') = length (map (\<lambda>p. (r p, g p, b p)) (points ctx))"
      using l by simp
  next
    fix i assume "i < length (map (\<lambda>p. (r p, g p, b p)) ps')"
    then have i: "i < length (points ctx)" using l by simp
    from v[OF i] obtain c where "ps' ! i = (points ctx ! i)\<lparr>cluster := c\<rparr>" by blast
    with i l show "map (\<lambda>p. (r p, g p, b p)) ps' ! i = map (\<lambda>p. (r p, g p, b p)) (points ctx) ! i"
      by simp
  qed
  have lab: "labelled ps' (K ctx)"
    unfolding labelled_def list_all_length
  proof (intro allI impI)
    fix i assume "i < length ps'"
    then have i: "i < length (points ctx)" using l by simp
    from v[OF i] obtain c where "ps' ! i = (points ctx ! i)\<lparr>cluster := c\<rparr>"
      and "scan_result (centroids ctx) (points ctx ! i) c" by blast
    then show "0 \<le> cluster (ps' ! i) \<and> cluster (ps' ! i) < K ctx"
      using len(2) by (simp add: scan_result_def)
  qed
  have "ciq_clustering (Some ctx) = Inr (Some (ctx\<lparr>points := ps'\<rparr>))" using cl by simp
  moreover have "same_frame ctx (ctx\<lparr>points := ps'\<rparr>)" using col by (simp add: same_frame_def)
  ultimately show ?thesis using lab by (intro exI[of _ "ctx\<lparr>points := ps'\<rparr>"]) simp
qed

lemma ciq_update_centroids_frame:
  assumes "well_formed ctx" "1 \<le> K ctx" "labelled (points ctx) (K ctx)"
  shows "\<exists>changed ctx'. ciq_update_centroids new0 (Some ctx) = Inr (changed, Some ctx') \<and>
           same_frame ctx ctx' \<and> points ctx' = points ctx"
proof -
  from ciq_update_centroids_spec[OF assms, of new0]
  obtain changed cents' where
    eq: "ciq_update_centroids new0 (Some ctx) = Inr (changed, Some (ctx\<lparr>centroids := cents'\<rparr>))"
    and l: "length cents' = length (centroids ctx)" by blast
  have "same_frame ctx (ctx\<lparr>centroids := cents'\<rparr>)" using l by (simp add: same_frame_def)
  with eq show ?thesis by (intro exI[of _ changed] exI[of _ "ctx\<lparr>centroids := cents'\<rparr>"]) simp
qed

lemma step_frame:
  assumes "well_formed ctx" "1 \<le> K ctx"
  shows "\<exists>assigned changed ctx'.
           ciq_clustering (Some ctx) = Inr (Some assigned) \<and>
           ciq_update_centroids new0 (Some assigned) = Inr (changed, Some ctx') \<and>
           same_frame ctx ctx' \<and> labelled (points ctx') (K ctx)"
proof -
  from ciq_clustering_frame[OF assms]
  obtain ctx1 where c1: "ciq_clustering (Some ctx) = Inr (Some ctx1)" and f1: "same_frame ctx ctx1"
    and l1: "labelled (points ctx1) (K ctx)" by blast
  from f1 have k1: "K ctx1 = K ctx" by (simp add: same_frame_def)
  have wf1: "well_formed ctx1" by (rule same_frame_wf[OF assms(1) f1])
  from ciq_update_centroids_frame[OF wf1, of new0] assms(2) l1 k1
  obtain changed ctx2 where c2: "ciq_update_centroids new0 (Some ctx1) = Inr (changed, Some ctx2)"
    and f2: "same_frame ctx1 ctx2" and p2: "points ctx2 = points ctx1" by auto
  have "same_frame ctx ctx2" by (rule same_frame_trans[OF f1 f2])
  with c1 c2 l1 p2 show ?thesis by auto
qed

lemma iterate_spec:
  assumes "well_formed ctx" "1 \<le> K ctx" "i < MAX_ITERS"
  shows "\<exists>ctx' n ctxs flags. iterate junk i (Some ctx) = Inr (Some ctx', n) \<and>
           i < n \<and> n \<le> MAX_ITERS \<and>
           length flags = n - i \<and> length ctxs = Suc (n - i) \<and>
           ctxs ! 0 = ctx \<and> ctxs ! (n - i) = ctx' \<and>
           (\<forall>m < n - i. \<exists>assigned.
              ciq_clustering (Some (ctxs ! m)) = Inr (Some assigned) \<and>
              ciq_update_centroids (junk (i + m)) (Some assigned) = Inr (flags ! m, Some (ctxs ! Suc m))) \<and>
           (\<forall>m. Suc m < n - i \<longrightarrow> flags ! m) \<and>
           (n < MAX_ITERS \<longrightarrow> \<not> flags ! (n - i - 1)) \<and>
           same_frame ctx ctx' \<and> labelled (points ctx') (K ctx)"
  using assms
proof (induction junk i "Some ctx" arbitrary: ctx rule: iterate.induct)
  case (1 junk i ctx)
  from step_frame[OF "1.prems"(1,2), of "junk i"]
  obtain assigned changed ctx1 where a: "ciq_clustering (Some ctx) = Inr (Some assigned)"
    and u: "ciq_update_centroids (junk i) (Some assigned) = Inr (changed, Some ctx1)"
    and f1: "same_frame ctx ctx1" and l1: "labelled (points ctx1) (K ctx)" by blast
  have wf1: "well_formed ctx1" by (rule same_frame_wf[OF "1.prems"(1) f1])
  from f1 have k1: "K ctx1 = K ctx" by (simp add: same_frame_def)
  have single: "\<forall>m < Suc 0. \<exists>assigned.
              ciq_clustering (Some ([ctx, ctx1] ! m)) = Inr (Some assigned) \<and>
              ciq_update_centroids (junk (i + m)) (Some assigned) = Inr ([changed] ! m, Some ([ctx, ctx1] ! Suc m))"
    using a u by simp
  show ?case
  proof (cases "changed \<and> i + 1 < MAX_ITERS")
    case False
    have it: "iterate junk i (Some ctx) = Inr (Some ctx1, i + 1)"
    proof (cases changed)
      case c: False
      then show ?thesis using "1.prems"(3) a u by (subst iterate.simps) simp
    next
      case c: True
      with False have "\<not> i + 1 < MAX_ITERS" by simp
      then have "iterate junk (i + 1) (Some ctx1) = Inr (Some ctx1, i + 1)"
        by (subst iterate.simps) simp
      then show ?thesis using "1.prems"(3) a u c by (subst iterate.simps) simp
    qed
    have stop: "i + 1 < MAX_ITERS \<longrightarrow> \<not> [changed] ! (i + 1 - i - 1)" using False by auto
    show ?thesis
      by (rule exI[of _ ctx1], rule exI[of _ "i + 1"], rule exI[of _ "[ctx, ctx1]"],
          rule exI[of _ "[changed]"])
         (use it "1.prems"(3) single stop f1 l1 in simp)
  next
    case True
    then have ch: changed and go: "i + 1 < MAX_ITERS" by simp_all
    have "\<exists>ctx' n ctxs flags. iterate junk (i + 1) (Some ctx1) = Inr (Some ctx', n) \<and>
           i + 1 < n \<and> n \<le> MAX_ITERS \<and>
           length flags = n - (i + 1) \<and> length ctxs = Suc (n - (i + 1)) \<and>
           ctxs ! 0 = ctx1 \<and> ctxs ! (n - (i + 1)) = ctx' \<and>
           (\<forall>m < n - (i + 1). \<exists>assigned.
              ciq_clustering (Some (ctxs ! m)) = Inr (Some assigned) \<and>
              ciq_update_centroids (junk (i + 1 + m)) (Some assigned) = Inr (flags ! m, Some (ctxs ! Suc m))) \<and>
           (\<forall>m. Suc m < n - (i + 1) \<longrightarrow> flags ! m) \<and>
           (n < MAX_ITERS \<longrightarrow> \<not> flags ! (n - (i + 1) - 1)) \<and>
           same_frame ctx1 ctx' \<and> labelled (points ctx') (K ctx1)"
    proof -
      have nn: "\<not> \<not> changed" using ch by simp
      have k: "1 \<le> K ctx1" using "1.prems"(2) k1 by simp
      show ?thesis by (rule "1.hyps"[OF "1.prems"(3) a u refl nn wf1 k go])
    qed
    then obtain ctx' n ctxs flags where it: "iterate junk (i + 1) (Some ctx1) = Inr (Some ctx', n)"
      and n: "i + 1 < n" "n \<le> MAX_ITERS"
      and len: "length flags = n - (i + 1)" "length ctxs = Suc (n - (i + 1))"
      and ends: "ctxs ! 0 = ctx1" "ctxs ! (n - (i + 1)) = ctx'"
      and chain: "\<And>m. m < n - (i + 1) \<Longrightarrow> \<exists>assigned.
              ciq_clustering (Some (ctxs ! m)) = Inr (Some assigned) \<and>
              ciq_update_centroids (junk (i + 1 + m)) (Some assigned) = Inr (flags ! m, Some (ctxs ! Suc m))"
      and fl: "\<And>m. Suc m < n - (i + 1) \<Longrightarrow> flags ! m"
      and last: "n < MAX_ITERS \<longrightarrow> \<not> flags ! (n - (i + 1) - 1)"
      and f2: "same_frame ctx1 ctx'" and l2: "labelled (points ctx') (K ctx1)"
      by blast
    have e1: "iterate junk i (Some ctx) = Inr (Some ctx', n)"
      using "1.prems"(3) a u ch it by (subst iterate.simps) simp
    have ni: "n - i = Suc (n - (i + 1))" using n by simp
    have e2: "\<forall>m < n - i. \<exists>assigned.
              ciq_clustering (Some ((ctx # ctxs) ! m)) = Inr (Some assigned) \<and>
              ciq_update_centroids (junk (i + m)) (Some assigned)
                = Inr ((True # flags) ! m, Some ((ctx # ctxs) ! Suc m))"
    proof (intro allI impI)
      fix m assume m: "m < n - i"
      show "\<exists>assigned.
              ciq_clustering (Some ((ctx # ctxs) ! m)) = Inr (Some assigned) \<and>
              ciq_update_centroids (junk (i + m)) (Some assigned)
                = Inr ((True # flags) ! m, Some ((ctx # ctxs) ! Suc m))"
      proof (cases m)
        case 0
        with a u ch ends(1) show ?thesis by simp
      next
        case (Suc m')
        with m ni have "m' < n - (i + 1)" by simp
        from chain[OF this] Suc show ?thesis by simp
      qed
    qed
    have e3: "\<forall>m. Suc m < n - i \<longrightarrow> (True # flags) ! m"
    proof (intro allI impI)
      fix m assume m: "Suc m < n - i"
      show "(True # flags) ! m"
      proof (cases m)
        case 0
        then show ?thesis by simp
      next
        case (Suc m')
        with m ni have "Suc m' < n - (i + 1)" by simp
        from fl[OF this] Suc show ?thesis by simp
      qed
    qed
    have pos: "0 < n - (i + 1)" using n by simp
    then have idx: "n - i - 1 = Suc (n - (i + 1) - 1)" using n by simp
    have e4: "n < MAX_ITERS \<longrightarrow> \<not> (True # flags) ! (n - i - 1)"
      unfolding idx using last by simp
    have e5: "length (True # flags) = n - i" "length (ctx # ctxs) = Suc (n - i)"
      using len ni by simp_all
    have e6: "(ctx # ctxs) ! 0 = ctx" "(ctx # ctxs) ! (n - i) = ctx'"
      using ends ni by simp_all
    have e7: "same_frame ctx ctx'" by (rule same_frame_trans[OF f1 f2])
    have e8: "labelled (points ctx') (K ctx)" using l2 k1 by simp
    have e9: "i < n" using n by simp
    show ?thesis
      by (rule exI[of _ ctx'], rule exI[of _ n], rule exI[of _ "ctx # ctxs"],
          rule exI[of _ "True # flags"])
         (intro conjI e1 e9 n(2) e5 e6 e2 e3 e4 e7 e8)
  qed
qed

lemma ciq_quantize_spec:
  assumes "well_formed ctx" "1 \<le> K ctx" "1 \<le> size' ctx" "0 < rand_max" "0 \<le> rs 0"
  shows "\<exists>seeded final n ctxs flags.
           ciq_init_centroids True rand_max rs (Some ctx) = Inr (True, Some seeded) \<and>
           ciq_quantize True rand_max rs junk (Some ctx) = Inr (True, Some final, n) \<and>
           1 \<le> n \<and> n \<le> 100 \<and>
           length flags = n \<and> length ctxs = Suc n \<and> ctxs ! 0 = seeded \<and> ctxs ! n = final \<and>
           (\<forall>m < n. \<exists>assigned.
              ciq_clustering (Some (ctxs ! m)) = Inr (Some assigned) \<and>
              ciq_update_centroids (junk m) (Some assigned) = Inr (flags ! m, Some (ctxs ! Suc m))) \<and>
           (\<forall>m. Suc m < n \<longrightarrow> flags ! m) \<and> (n < 100 \<longrightarrow> \<not> flags ! (n - 1)) \<and>
           same_frame ctx final \<and> labelled (points final) (K ctx)"
proof -
  from ciq_init_centroids_defined[where rs = rs, OF assms]
  obtain cents' where
    seed: "ciq_init_centroids True rand_max rs (Some ctx) = Inr (True, Some (ctx\<lparr>centroids := cents'\<rparr>))"
    and l: "length cents' = length (centroids ctx)" by blast
  let ?seeded = "ctx\<lparr>centroids := cents'\<rparr>"
  have f0: "same_frame ctx ?seeded" using l by (simp add: same_frame_def)
  have wf0: "well_formed ?seeded" by (rule same_frame_wf[OF assms(1) f0])
  have k0: "1 \<le> K ?seeded" using assms(2) by simp
  have "0 < MAX_ITERS" by (simp add: MAX_ITERS_def)
  from iterate_spec[OF wf0 k0 this, of junk]
  obtain final n ctxs flags where it: "iterate junk 0 (Some ?seeded) = Inr (Some final, n)"
    and n: "0 < n" "n \<le> MAX_ITERS"
    and len: "length flags = n - 0" "length ctxs = Suc (n - 0)"
    and ends: "ctxs ! 0 = ?seeded" "ctxs ! (n - 0) = final"
    and chain: "\<forall>m < n - 0. \<exists>assigned.
              ciq_clustering (Some (ctxs ! m)) = Inr (Some assigned) \<and>
              ciq_update_centroids (junk (0 + m)) (Some assigned) = Inr (flags ! m, Some (ctxs ! Suc m))"
    and fl: "\<forall>m. Suc m < n - 0 \<longrightarrow> flags ! m"
    and last: "n < MAX_ITERS \<longrightarrow> \<not> flags ! (n - 0 - 1)"
    and f1: "same_frame ?seeded final" and l1: "labelled (points final) (K ?seeded)"
    by blast
  have q: "ciq_quantize True rand_max rs junk (Some ctx) = Inr (True, Some final, n)"
    using seed it by simp
  have f: "same_frame ctx final" by (rule same_frame_trans[OF f0 f1])
  have c1: "1 \<le> n" "n \<le> 100" using n by (simp_all add: MAX_ITERS_def)
  have c2: "length flags = n" "length ctxs = Suc n" "ctxs ! n = final" using len ends by simp_all
  have c3: "\<forall>m < n. \<exists>assigned.
              ciq_clustering (Some (ctxs ! m)) = Inr (Some assigned) \<and>
              ciq_update_centroids (junk m) (Some assigned) = Inr (flags ! m, Some (ctxs ! Suc m))"
    using chain by simp
  have c4: "\<forall>m. Suc m < n \<longrightarrow> flags ! m" using fl by simp
  have c5: "n < 100 \<longrightarrow> \<not> flags ! (n - 1)" using last by (simp add: MAX_ITERS_def)
  have c6: "labelled (points final) (K ctx)" using l1 by simp
  show ?thesis
    by (rule exI[of _ ?seeded], rule exI[of _ final], rule exI[of _ n], rule exI[of _ ctxs],
        rule exI[of _ flags])
       (intro conjI seed q c1 c2 ends(1) c3 c4 c5 f c6)
qed

text \<open>
  C6.  On a well-formed context with at least one point and one centroid, with the scratch
  buffer allocated, \<open>ciq_quantize\<close> is defined and returns true after \<open>n\<close> iterations,
  \<open>1 \<le> n \<le> 100\<close>.  There are contexts \<open>ctxs ! 0\<close>, ..., \<open>ctxs ! n\<close>, the first the seeded
  context and the last the context returned, such that each is obtained from the one
  before by one call of \<open>ciq_clustering\<close> followed by one call of \<open>ciq_update_centroids\<close>
  on its result.  Every Updater call but the last reported a change, and when \<open>n < 100\<close>
  the last one reported none.  In both cases the result has its \<open>K\<close> centroids and every
  point carries a label below \<open>K\<close>.
\<close>

theorem ciq_quantize_at_most_100_passes:
  assumes "well_formed ctx" and "1 \<le> K ctx" and "1 \<le> size' ctx"
    and "0 < rand_max" and "0 \<le> rs 0"
  shows "\<exists>seeded final n ctxs flags.
           ciq_init_centroids True rand_max rs (Some ctx) = Inr (True, Some seeded) \<and>
           ciq_quantize True rand_max rs junk (Some ctx) = Inr (True, Some final, n) \<and>
           1 \<le> n \<and> n \<le> 100 \<and>
           length flags = n \<and> length ctxs = Suc n \<and> ctxs ! 0 = seeded \<and> ctxs ! n = final \<and>
           (\<forall>m < n. \<exists>assigned.
              ciq_clustering (Some (ctxs ! m)) = Inr (Some assigned) \<and>
              ciq_update_centroids (junk m) (Some assigned) = Inr (flags ! m, Some (ctxs ! Suc m))) \<and>
           (\<forall>m. Suc m < n \<longrightarrow> flags ! m) \<and> (n < 100 \<longrightarrow> \<not> flags ! (n - 1)) \<and>
           same_frame ctx final \<and> labelled (points final) (K ctx)"
  by (rule ciq_quantize_spec[where rs = rs, OF assms])

text \<open>
  At \<open>ex_seed\<close> with the sample random source the loop runs twice: the first iteration
  moves the second centroid from (100, 0, 0) to (80, 0, 0) and reports a change, the
  second changes nothing.
\<close>

theorem ciq_quantize_at_most_100_passes_witness:
  "well_formed ex_seed \<and> 1 \<le> K ex_seed \<and> 1 \<le> size' ex_seed \<and>
   0 < sample_rand_max \<and> 0 \<le> sample_rand 0 \<and>
   (\<exists>seeded final n ctxs flags.
           ciq_init_centroids True sample_rand_max sample_rand (Some ex_seed) = Inr (True, Some seeded) \<and>
           ciq_quantize True sample_rand_max sample_rand (\<lambda>i. zero_point) (Some ex_seed)
             = Inr (True, Some final, n) \<and>
           1 \<le> n \<and> n \<le> 100 \<and>
           length flags = n \<and> length ctxs = Suc n \<and> ctxs ! 0 = seeded \<and> ctxs ! n = final \<and>
           (\<forall>m < n. \<exists>assigned.
              ciq_clustering (Some (ctxs ! m)) = Inr (Some assigned) \<and>
              ciq_update_centroids zero_point (Some assigned) = Inr (flags ! m, Some (ctxs ! Suc m))) \<and>
           (\<forall>m. Suc m < n \<longrightarrow> flags ! m) \<and> (n < 100 \<longrightarrow> \<not> flags ! (n - 1)) \<and>
           same_frame ex_seed final \<and> labelled (points final) (K ex_seed)) \<and>
   ciq_init_centroids True sample_rand_max sample_rand (Some ex_seed) = Inr (True, Some ex_seeded) \<and>
   ciq_quantize True sample_rand_max sample_rand (\<lambda>i. zero_point) (Some ex_seed)
     = Inr (True, Some ex_updated, 2) \<and>
   ciq_clustering (Some ex_seeded) = Inr (Some ex_assigned) \<and>
   ciq_update_centroids zero_point (Some ex_assigned) = Inr (True, Some ex_updated) \<and>
   ciq_clustering (Some ex_updated) = Inr (Some ex_updated) \<and>
   ciq_update_centroids zero_point (Some ex_updated) = Inr (False, Some ex_updated)"
proof -
  have h1: "well_formed ex_seed" and h2: "1 \<le> K ex_seed" and h3: "1 \<le> size' ex_seed"
    and h4: "0 < sample_rand_max" and h5: "0 \<le> sample_rand 0"
    by (simp_all add: well_formed_def ex_seed_def sample_rand_max_def sample_rand_def)
  have r1: "ciq_init_centroids True sample_rand_max sample_rand (Some ex_seed) = Inr (True, Some ex_seeded)"
    by code_simp
  have r2: "ciq_quantize True sample_rand_max sample_rand (\<lambda>i. zero_point) (Some ex_seed)
     = Inr (True, Some ex_updated, 2)"
    by code_simp
  have r3: "ciq_clustering (Some ex_seeded) = Inr (Some ex_assigned)"
    by code_simp
  have r4: "ciq_update_centroids zero_point (Some ex_assigned) = Inr (True, Some ex_updated)"
    by code_simp
  have r5: "ciq_clustering (Some ex_updated) = Inr (Some ex_updated)"
    by code_simp
  have r6: "ciq_update_centroids zero_point (Some ex_updated) = Inr (False, Some ex_updated)"
    by code_simp
  from ciq_quantize_at_most_100_passes[where rs = sample_rand and junk = "\<lambda>i. zero_point",
      OF h1 h2 h3 h4 h5]
    h1 h2 h3 h4 h5 r1 r2 r3 r4 r5 r6
  show ?thesis by blast
qed

text \<open>
  C9.  On a well-formed context with at least one point and one centroid: an Assigner pass
  leaves every label in \<open>[0, K)\<close>; the Assigner, the Updater (on labelled points) and the
  Orchestrator are defined and keep the dimensions, the counts, the colour of every point
  and the number \<open>K\<close> of centroids; the Updater does not touch the points at all.
\<close>

theorem engine_keeps_frame_and_labels:
  assumes "well_formed ctx" and "1 \<le> K ctx" and "1 \<le> size' ctx"
    and "0 < rand_max" and "0 \<le> rs 0"
  shows "(\<exists>ctx'. ciq_clustering (Some ctx) = Inr (Some ctx') \<and>
            labelled (points ctx') (K ctx) \<and> same_frame ctx ctx' \<and>
            int (length (centroids ctx')) = K ctx) \<and>
         (labelled (points ctx) (K ctx) \<longrightarrow>
            (\<exists>changed ctx'. ciq_update_centroids new0 (Some ctx) = Inr (changed, Some ctx') \<and>
               points ctx' = points ctx \<and> same_frame ctx ctx' \<and>
               int (length (centroids ctx')) = K ctx)) \<and>
         (\<exists>ok ctx' n. ciq_quantize alloc_ok rand_max rs junk (Some ctx) = Inr (ok, Some ctx', n) \<and>
            same_frame ctx ctx' \<and> int (length (centroids ctx')) = K ctx)"
proof (intro conjI impI)
  have lenK: "int (length (centroids ctx')) = K ctx" if "same_frame ctx ctx'" for ctx'
    using that assms(1) by (simp add: same_frame_def well_formed_def)
  from ciq_clustering_frame[OF assms(1,2)] lenK
  show "\<exists>ctx'. ciq_clustering (Some ctx) = Inr (Some ctx') \<and>
            labelled (points ctx') (K ctx) \<and> same_frame ctx ctx' \<and>
            int (length (centroids ctx')) = K ctx" by blast
  show "\<exists>changed ctx'. ciq_update_centroids new0 (Some ctx) = Inr (changed, Some ctx') \<and>
               points ctx' = points ctx \<and> same_frame ctx ctx' \<and>
               int (length (centroids ctx')) = K ctx" if "labelled (points ctx) (K ctx)"
    using ciq_update_centroids_frame[OF assms(1,2) that, of new0] lenK by blast
  show "\<exists>ok ctx' n. ciq_quantize alloc_ok rand_max rs junk (Some ctx) = Inr (ok, Some ctx', n) \<and>
            same_frame ctx ctx' \<and> int (length (centroids ctx')) = K ctx"
  proof (cases alloc_ok)
    case True
    from ciq_quantize_spec[where rs = rs and junk = junk, OF assms]
    obtain final n where "ciq_quantize True rand_max rs junk (Some ctx) = Inr (True, Some final, n)"
      and "same_frame ctx final" by blast
    with True lenK[of final] show ?thesis by auto
  next
    case False
    then have "ciq_quantize alloc_ok rand_max rs junk (Some ctx) = Inr (False, Some ctx, 0)" by simp
    with lenK[OF same_frame_refl] same_frame_refl show ?thesis by blast
  qed
qed

theorem engine_keeps_frame_and_labels_witness:
  "well_formed ex_stale \<and> 1 \<le> K ex_stale \<and> 1 \<le> size' ex_stale \<and>
   0 < sample_rand_max \<and> 0 \<le> sample_rand 0 \<and>
   labelled (points ex_stale) (K ex_stale) \<and>
   (\<exists>ctx'. ciq_clustering (Some ex_stale) = Inr (Some ctx') \<and>
            labelled (points ctx') (K ex_stale) \<and> same_frame ex_stale ctx' \<and>
            int (length (centroids ctx')) = K ex_stale) \<and>
   (\<exists>changed ctx'. ciq_update_centroids \<lparr>r = 0, g = 0, b = 0, cluster = 0\<rparr> (Some ex_stale)
                       = Inr (changed, Some ctx') \<and>
            points ctx' = points ex_stale \<and> same_frame ex_stale ctx' \<and>
            int (length (centroids ctx')) = K ex_stale) \<and>
   (\<exists>ok ctx' n. ciq_quantize True sample_rand_max sample_rand (\<lambda>i. \<lparr>r = 0, g = 0, b = 0, cluster = 0\<rparr>)
                   (Some ex_stale) = Inr (ok, Some ctx', n) \<and>
            same_frame ex_stale ctx' \<and> int (length (centroids ctx')) = K ex_stale)"
proof -
  have h1: "well_formed ex_stale" and h2: "1 \<le> K ex_stale"
    and h6: "labelled (points ex_stale) (K ex_stale)"
    using ex_stale_wf by simp_all
  have h3: "1 \<le> size' ex_stale" by (simp add: ex_stale_def)
  have h4: "0 < sample_rand_max" and h5: "0 \<le> sample_rand 0"
    by (simp_all add: sample_rand_max_def sample_rand_def)
  from engine_keeps_frame_and_labels[where rs = sample_rand and alloc_ok = True
      and junk = "\<lambda>i. \<lparr>r = 0, g = 0, b = 0, cluster = 0\<rparr>"
      and ?new0.0 = "\<lparr>r = 0, g = 0, b = 0, cluster = 0\<rparr>", OF h1 h2 h3 h4 h5]
    h1 h2 h3 h4 h5 h6
  show ?thesis by blast
qed

text \<open>
  C2.  The claim that the weights are distances to the nearest of all chosen centroids
  fails.  On \<open>ex_seed\<close> with the sample random source the Seeder first chooses (0, 0, 0)
  and (100, 0, 0).  For the third centroid the loop measures against the second centroid
  only: the weights are 0, 10000 and 1600, where the distances to the nearest chosen
  centroid are 0, 0 and 1600.  The point (0, 0, 0), already a centroid, carries most of
  the total and is chosen again, although a third colour is available.
\<close>

theorem seeding_weights_use_last_centroid_only:
  "ciq_init_centroids True sample_rand_max sample_rand (Some ex_seed) =
     Inr (True, Some (ex_seed\<lparr>centroids :=
       [\<lparr>r = 0, g = 0, b = 0, cluster = 0\<rparr>, \<lparr>r = 100, g = 0, b = 0, cluster = 0\<rparr>,
        \<lparr>r = 0, g = 0, b = 0, cluster = 0\<rparr>]\<rparr>)) \<and>
   seed_weights (points ex_seed)
       [\<lparr>r = 0, g = 0, b = 0, cluster = 0\<rparr>, \<lparr>r = 100, g = 0, b = 0, cluster = 0\<rparr>,
        \<lparr>r = 0, g = 0, b = 0, cluster = 0\<rparr>] (2 - 1) 3 0 ([], 0) = Inr ([0, 10000, 1600], 11600) \<and>
   map (\<lambda>p. nearest_chosen p [\<lparr>r = 0, g = 0, b = 0, cluster = 0\<rparr>, \<lparr>r = 100, g = 0, b = 0, cluster = 0\<rparr>])
       (points ex_seed) = [0, 0, 1600]"
  by code_simp

subsection \<open>The whole program\<close>

text \<open>
  C1.  The claim that every failure ends the run with exit code 1 and without output files
  fails.  In \<open>ex_env\<close> with the output image not writable, \<open>ciq_remap\<close> fails and \<open>main\<close>
  still returns 0.  With only \<open>palette.pal\<close> not writable, the image has been written by
  then and \<open>main\<close> returns 0.  When the Seeder cannot get its scratch buffer, its failure
  is dropped and \<open>ciq_remap\<close> indexes the centroids with the label \<open>-1\<close> of a point that
  was never assigned.
\<close>

theorem failures_exit_zero_and_leave_files:
  "main (ex_env\<lparr>output_writable := False\<rparr>) 4 (Some 3) = Inr (0, no_files) \<and>
   main (ex_env\<lparr>palette_writable := False\<rparr>) 4 (Some 3) =
     Inr (0, \<lparr>image_file = Some ex_output, palette_file = None\<rparr>) \<and>
   main (ex_env\<lparr>alloc_distances := False\<rparr>) 4 (Some 3) = Inl OutOfBounds"
  by code_simp

text \<open>
  C7.  The claim that the output is a function of the pixels, \<open>K\<close> and the random numbers
  fails.  In the run \<open>ex_env\<close> the second Assigner pass leaves cluster 0 empty, so the
  second Updater call stores its local \<open>new\<close> at index 0 before anything was written to
  it.  Two runs that differ only in what that local happened to hold, (15, 0, 0) or
  (16, 0, 0), write different palette files.
\<close>

theorem palette_depends_on_uninitialised_local:
  "main ex_env 4 (Some 3) =
     Inr (0, \<lparr>image_file = Some ex_output, palette_file = Some [15, 0, 0,  8, 0, 0,  22, 0, 0]\<rparr>) \<and>
   main (ex_env\<lparr>env_junk := (\<lambda>i. \<lparr>r = 16, g = 0, b = 0, cluster = 0\<rparr>)\<rparr>) 4 (Some 3) =
     Inr (0, \<lparr>image_file = Some ex_output, palette_file = Some [16, 0, 0,  8, 0, 0,  22, 0, 0]\<rparr>)"
  by code_simp

lemma colours_update:
  assumes "i < length ps" "r p = r (ps ! i)" "g p = g (ps ! i)" "b p = b (ps ! i)"
  shows "colours (ps[i := p]) = colours ps"
proof -
  have "colours (ps[i := p]) = (colours ps)[i := (r p, g p, b p)]"
    by (simp add: colours_def map_update)
  also have "\<dots> = colours ps"
    using assms by (simp add: colours_def list_update_same_conv)
  finally show ?thesis .
qed

lemma assign_point_colour:
  "assign_point cs k p = Inr p' \<Longrightarrow> r p' = r p \<and> g p' = g p \<and> b p' = b p"
  by (auto simp: assign_point_def split: sum.splits prod.splits)

lemma clustering_loop_colours:
  "clustering_loop cs k n i ps = Inr ps' \<Longrightarrow> 0 \<le> i \<Longrightarrow> colours ps' = colours ps"
proof (induction cs k n i ps rule: clustering_loop.induct)
  case (1 cs k n i ps)
  show ?case
  proof (cases "i < n")
    case False
    with "1.prems" show ?thesis by (subst (asm) clustering_loop.simps) simp
  next
    case True
    from "1.prems"(1) True obtain p p' where at: "elem_at ps i = Inr p"
      and ap: "assign_point cs k p = Inr p'"
      and rest: "clustering_loop cs k n (i + 1) (ps[nat i := p']) = Inr ps'"
      by (subst (asm) clustering_loop.simps) (auto split: sum.splits)
    from at have i: "nat i < length ps" and p: "p = ps ! nat i"
      by (auto simp: elem_at_def split: if_splits)
    have "colours ps' = colours (ps[nat i := p'])"
      by (rule "1.IH"[OF True at ap rest]) (use "1.prems" in simp)
    also have "\<dots> = colours ps"
      using assign_point_colour[OF ap] p by (intro colours_update[OF i]) simp_all
    finally show ?thesis .
  qed
qed

lemma ciq_clustering_partial:
  assumes "ciq_clustering (Some ctx) = Inr res"
  shows "\<exists>ctx'. res = Some ctx' \<and> same_frame ctx ctx' \<and> centroids ctx' = centroids ctx"
proof -
  from assms obtain ps' where cl: "clustering_loop (centroids ctx) (K ctx) (size' ctx) 0 (points ctx) = Inr ps'"
    and res: "res = Some (ctx\<lparr>points := ps'\<rparr>)"
    by (auto split: sum.splits)
  from clustering_loop_colours[OF cl] have "colours ps' = colours (points ctx)" by simp
  with res show ?thesis by (simp add: same_frame_def)
qed

lemma update_loop_length:
  "update_loop k acc i (new, ch, cents) = Inr (new', ch', cents') \<Longrightarrow> length cents' = length cents"
proof (induction k acc i "(new, ch, cents)" arbitrary: new ch cents rule: update_loop.induct)
  case (1 k sr sg sb cs i new ch cents)
  show ?case
  proof (cases "i < k")
    case False
    with "1.prems" show ?thesis by (subst (asm) update_loop.simps) simp
  next
    case True
    let ?new = "refresh new (cs ! nat i) (sr ! nat i) (sg ! nat i) (sb ! nat i)"
    from "1.prems" True obtain c where at: "elem_at cents i = Inr c"
      and rest: "update_loop k (sr, sg, sb, cs) (i + 1)
                   (?new, ch \<or> ciq_distance c ?new > EPSILON, cents[nat i := ?new]) = Inr (new', ch', cents')"
      by (subst (asm) update_loop.simps) (auto simp: Let_def split: sum.splits)
    have "length cents' = length (cents[nat i := ?new])"
      by (rule "1.hyps"[OF True refl at rest])
    then show ?thesis by simp
  qed
qed

lemma ciq_update_centroids_partial:
  assumes "ciq_update_centroids new0 (Some ctx) = Inr (ch, res)"
  shows "\<exists>ctx'. res = Some ctx' \<and> same_frame ctx ctx' \<and> points ctx' = points ctx"
proof -
  from assms obtain acc new' cents' where
    "update_loop (K ctx) acc 0 (new0, False, centroids ctx) = Inr (new', ch, cents')"
    and res: "res = Some (ctx\<lparr>centroids := cents'\<rparr>)"
    by (auto simp: Let_def split: if_splits sum.splits prod.splits)
  from update_loop_length[OF this(1)] res show ?thesis by (simp add: same_frame_def)
qed

lemma iterate_partial:
  "iterate junk i (Some ctx) = Inr (res, n) \<Longrightarrow> \<exists>ctx'. res = Some ctx' \<and> same_frame ctx ctx'"
proof (induction junk i "Some ctx" arbitrary: ctx rule: iterate.induct)
  case (1 junk i ctx)
  show ?case
  proof (cases "i < MAX_ITERS")
    case False
    with "1.prems" have "res = Some ctx" by (subst (asm) iterate.simps) simp
    then show ?thesis using same_frame_refl by blast
  next
    case True
    from "1.prems" True obtain a ch r1 where c: "ciq_clustering (Some ctx) = Inr a"
      and u: "ciq_update_centroids (junk i) a = Inr (ch, r1)"
      and rest: "if \<not> ch then res = r1 else iterate junk (i + 1) r1 = Inr (res, n)"
      by (subst (asm) iterate.simps)
         (auto simp del: ciq_clustering.simps ciq_update_centroids.simps split: sum.splits if_splits)
    from ciq_clustering_partial[OF c] obtain ctx0 where a: "a = Some ctx0" and f0: "same_frame ctx ctx0"
      by blast
    from ciq_update_centroids_partial[OF u[unfolded a]] obtain ctx1 where r1: "r1 = Some ctx1"
      and f01: "same_frame ctx0 ctx1" by blast
    have f1: "same_frame ctx ctx1" by (rule same_frame_trans[OF f0 f01])
    show ?thesis
    proof (cases ch)
      case False
      with rest r1 f1 show ?thesis by simp
    next
      case ch: True
      with rest r1 have it: "iterate junk (i + 1) (Some ctx1) = Inr (res, n)" by simp
      have nn: "\<not> \<not> ch" using ch by simp
      have "\<exists>ctx'. res = Some ctx' \<and> same_frame ctx1 ctx'"
        by (rule "1.hyps"[OF True c u[unfolded r1] refl nn it])
      with f1 show ?thesis using same_frame_trans by blast
    qed
  qed
qed

lemma seed_loop_length:
  "seed_loop rand_max rs ps n k i cents = Inr cents' \<Longrightarrow> length cents' = length cents"
proof (induction rand_max rs ps n k i cents rule: seed_loop.induct)
  case (1 rand_max rs ps n k i cents)
  show ?case
  proof (cases "i < k")
    case False
    with "1.prems" show ?thesis by (subst (asm) seed_loop.simps) simp
  next
    case True
    from "1.prems" True obtain ds t pk where sw: "seed_weights ps cents (i - 1) n 0 ([], 0) = Inr (ds, t)"
      and nz: "\<not> rand_max \<le> 0"
      and pk: "pick ps ds (threshold rand_max (rs (nat i)) t) n 0 0 = Inr pk"
      by (subst (asm) seed_loop.simps) (auto split: sum.splits if_splits prod.splits)
    show ?thesis
    proof (cases pk)
      case None
      with "1.prems" True sw nz pk have rest: "seed_loop rand_max rs ps n k (i + 1) cents = Inr cents'"
        by (subst (asm) seed_loop.simps) simp
      show ?thesis by (rule "1.IH"(1)[OF True sw refl nz pk[unfolded None] refl rest])
    next
      case (Some p)
      with "1.prems" True sw nz pk have il: "i < int (length cents)"
        and rest: "seed_loop rand_max rs ps n k (i + 1) (cents[nat i := centroid_of p]) = Inr cents'"
        by (subst (asm) seed_loop.simps, simp split: if_splits)+
      have "length cents' = length (cents[nat i := centroid_of p])"
        by (rule "1.IH"(2)[OF True sw refl nz pk[unfolded Some] refl il rest])
      then show ?thesis by simp
    qed
  qed
qed

lemma ciq_init_centroids_partial:
  assumes "ciq_init_centroids alloc_ok rand_max rs (Some ctx) = Inr (ok, res)"
  shows "\<exists>ctx'. res = Some ctx' \<and> same_frame ctx ctx' \<and> points ctx' = points ctx \<and>
           (\<not> ok \<longrightarrow> ctx' = ctx \<and> \<not> alloc_ok)"
proof (cases alloc_ok)
  case False
  with assms show ?thesis by (simp add: same_frame_refl)
next
  case True
  with assms obtain p cents' where
    "seed_loop rand_max rs (points ctx) (size' ctx) (K ctx) 1 ((centroids ctx)[0 := centroid_of p]) = Inr cents'"
    and res: "res = Some (ctx\<lparr>centroids := cents'\<rparr>)" and ok: "ok"
    by (auto split: if_splits sum.splits)
  from seed_loop_length[OF this(1)] res ok show ?thesis by (simp add: same_frame_def)
qed

lemma ciq_quantize_partial:
  assumes "ciq_quantize alloc_ok rand_max rs junk (Some ctx) = Inr (ok, res, n)"
  shows "\<exists>ctx'. res = Some ctx' \<and> same_frame ctx ctx'"
proof -
  from assms obtain ok1 r1 where s: "ciq_init_centroids alloc_ok rand_max rs (Some ctx) = Inr (ok1, r1)"
    and rest: "if \<not> ok1 then res = r1 else (\<exists>m. iterate junk 0 r1 = Inr (res, m))"
    by (auto split: sum.splits if_splits prod.splits)
  from ciq_init_centroids_partial[OF s] obtain ctx1 where r1: "r1 = Some ctx1" and f1: "same_frame ctx ctx1"
    by blast
  show ?thesis
  proof (cases ok1)
    case False
    with rest r1 f1 show ?thesis by simp
  next
    case True
    with rest r1 obtain m where "iterate junk 0 (Some ctx1) = Inr (res, m)" by auto
    from iterate_partial[OF this] f1 show ?thesis using same_frame_trans by blast
  qed
qed

lemma read_pixels_length:
  "read_pixels bytes n i loc ps = Inr ps' \<Longrightarrow> length ps' = length ps"
proof (induction bytes n i loc ps rule: read_pixels.induct)
  case (1 bytes n i x y z ps)
  show ?case
  proof (cases "i < n")
    case False
    with "1.prems" show ?thesis by (subst (asm) read_pixels.simps) simp
  next
    case True
    let ?x = "fetch bytes (3 * i) x" and ?y = "fetch bytes (3 * i + 1) y"
      and ?z = "fetch bytes (3 * i + 2) z"
    from "1.prems" True have il: "i < int (length ps)"
      and rest: "read_pixels bytes n (i + 1) (?x, ?y, ?z)
                   (ps[nat i := \<lparr>r = uint ?x, g = uint ?y, b = uint ?z, cluster = - 1\<rparr>]) = Inr ps'"
      by (subst (asm) read_pixels.simps, simp add: Let_def split: if_splits)+
    have "length ps' = length (ps[nat i := \<lparr>r = uint ?x, g = uint ?y, b = uint ?z, cluster = - 1\<rparr>])"
      by (rule "1.IH"[OF True refl refl refl il rest])
    then show ?thesis by simp
  qed
qed

lemma ciq_init_partial:
  assumes "ciq_init ctx_ok file points_ok centroids_ok stale k = Inr (Some ctx)"
  shows "\<exists>f. file = Some f \<and> width ctx = ppm_width f \<and> height ctx = ppm_height f \<and>
           size' ctx = ppm_width f * ppm_height f \<and> K ctx = k \<and>
           length (points ctx) = nat (size' ctx) \<and> length (centroids ctx) = nat k"
proof -
  from assms obtain f ps where f: "file = Some f"
    and rd: "read_pixels (dropWhile is_space (raster f)) (ppm_width f * ppm_height f) 0 stale
               (replicate (nat (ppm_width f * ppm_height f)) zero_point) = Inr ps"
    and ctx: "ctx = \<lparr>width = ppm_width f, height = ppm_height f,
                      size' = ppm_width f * ppm_height f, K = k, points = ps,
                      centroids = replicate (nat k) zero_point\<rparr>"
    by (auto simp: ciq_init_def split: if_splits option.splits sum.splits)
  from read_pixels_length[OF rd] f ctx show ?thesis by simp
qed

lemma remap_pixels_spec:
  "remap_pixels ps cents n i out = Inr body \<Longrightarrow> 0 \<le> i \<Longrightarrow> length ps = nat n \<Longrightarrow>
     body = out @ concat (map (\<lambda>p. rgb_bytes (cents ! nat (cluster p))) (drop (nat i) ps)) \<and>
     (\<forall>p \<in> set (drop (nat i) ps). 0 \<le> cluster p \<and> cluster p < int (length cents))"
proof (induction ps cents n i out rule: remap_pixels.induct)
  case (1 ps cents n i out)
  show ?case
  proof (cases "i < n")
    case False
    with "1.prems" have "body = out" "drop (nat i) ps = []"
      by (subst (asm) remap_pixels.simps, simp)+
    then show ?thesis by simp
  next
    case True
    from "1.prems"(1) True obtain p c where at: "elem_at ps i = Inr p"
      and atc: "elem_at cents (cluster p) = Inr c"
      and rest: "remap_pixels ps cents n (i + 1) (out @ rgb_bytes c) = Inr body"
      by (subst (asm) remap_pixels.simps) (auto split: sum.splits)
    from at have i: "nat i < length ps" and p: "p = ps ! nat i"
      by (auto simp: elem_at_def split: if_splits)
    from atc have c: "c = cents ! nat (cluster p)" and cl: "0 \<le> cluster p" "cluster p < int (length cents)"
      by (auto simp: elem_at_def split: if_splits)
    have dr: "drop (nat i) ps = p # drop (nat (i + 1)) ps"
      using i p "1.prems"(2) by (simp add: Cons_nth_drop_Suc nat_add_distrib)
    have "body = (out @ rgb_bytes c) @
             concat (map (\<lambda>p. rgb_bytes (cents ! nat (cluster p))) (drop (nat (i + 1)) ps)) \<and>
          (\<forall>p \<in> set (drop (nat (i + 1)) ps). 0 \<le> cluster p \<and> cluster p < int (length cents))"
      by (rule "1.IH"[OF True at atc rest]) (use "1.prems" in simp_all)
    with c cl show ?thesis unfolding dr by simp
  qed
qed

lemma palette_entries_spec:
  "palette_entries cents k i out = Inr pal \<Longrightarrow> 0 \<le> i \<Longrightarrow> length cents = nat k \<Longrightarrow>
     pal = out @ concat (map rgb_bytes (drop (nat i) cents))"
proof (induction cents k i out rule: palette_entries.induct)
  case (1 cents k i out)
  show ?case
  proof (cases "i < k")
    case False
    with "1.prems" have "pal = out" "drop (nat i) cents = []"
      by (subst (asm) palette_entries.simps, simp)+
    then show ?thesis by simp
  next
    case True
    from "1.prems"(1) True obtain c where at: "elem_at cents i = Inr c"
      and rest: "palette_entries cents k (i + 1) (out @ rgb_bytes c) = Inr pal"
      by (subst (asm) palette_entries.simps) (auto split: sum.splits)
    from at have i: "nat i < length cents" and c: "c = cents ! nat i"
      by (auto simp: elem_at_def split: if_splits)
    have dr: "drop (nat i) cents = c # drop (nat (i + 1)) cents"
      using i c "1.prems"(2) by (simp add: Cons_nth_drop_Suc nat_add_distrib)
    have "pal = (out @ rgb_bytes c) @ concat (map rgb_bytes (drop (nat (i + 1)) cents))"
      by (rule "1.IH"[OF True at rest]) (use "1.prems" in simp_all)
    then show ?thesis unfolding dr by simp
  qed
qed

lemma length_concat_triples:
  "(\<And>x. length (f x) = 3) \<Longrightarrow> length (concat (map f xs)) = 3 * length xs"
  by (induction xs) simp_all

lemma concat_triples_nth:
  "(\<And>x. length (f x) = 3) \<Longrightarrow> i < length xs \<Longrightarrow>
     take 3 (drop (3 * i) (concat (map f xs))) = f (xs ! i)"
proof (induction xs arbitrary: i)
  case Nil
  then show ?case by simp
next
  case (Cons x xs)
  show ?case
  proof (cases i)
    case 0
    with Cons.prems(1)[of x] show ?thesis by simp
  next
    case (Suc j)
    with Cons.prems have j: "j < length xs" by simp
    have "3 * i = length (f x) + 3 * j" using Suc Cons.prems(1)[of x] by simp
    then have "drop (3 * i) (concat (map f (x # xs))) = drop (3 * j) (concat (map f xs))"
      by simp
    with Cons.IH[OF Cons.prems(1) j] Suc show ?thesis by simp
  qed
qed

lemma length_rgb_bytes: "length (rgb_bytes c) = 3"
  by (simp add: rgb_bytes_def)

lemma same_frame_lengths:
  assumes "same_frame ctx ctx'"
  shows "length (points ctx') = length (points ctx)" "length (centroids ctx') = length (centroids ctx)"
    "width ctx' = width ctx" "height ctx' = height ctx" "size' ctx' = size' ctx" "K ctx' = K ctx"
proof -
  from assms have "length (colours (points ctx')) = length (colours (points ctx))"
    by (simp add: same_frame_def)
  then show "length (points ctx') = length (points ctx)" by (simp add: colours_def)
qed (use assms in \<open>simp_all add: same_frame_def\<close>)

lemma ciq_remap_written:
  assumes "ciq_remap out_ok pal_ok (Some ctx) = Inr (written, files)"
    and "image_file files = Some img" and "palette_file files = Some pal"
  shows "remap_pixels (points ctx) (centroids ctx) (size' ctx) 0 [] = Inr (raster img) \<and>
         palette_entries (centroids ctx) (K ctx) 0 [] = Inr pal \<and>
         ppm_width img = width ctx \<and> ppm_height img = height ctx \<and>
         magic img = ''P6'' \<and> maxval img = 255"
  using assms by (auto simp: no_files_def split: if_splits sum.splits)

text \<open>
  C8.  Take any run in which both output files were written.  The image has the input's
  dimensions and three bytes for each of the \<open>width * height\<close> points; the palette has
  three bytes for each of the \<open>K\<close> centroids, in index order, duplicates included; the
  label of every point is a valid index, and the three bytes of pixel \<open>i\<close> are the three
  bytes of the palette entry at the label of point \<open>i\<close>.  Points and centroids are those
  of the context \<open>ciq_quantize\<close> left.
\<close>

theorem output_pixels_are_palette_entries:
  assumes "ciq_quanization env k = Inr (ok, files)"
    and "image_file files = Some img" and "palette_file files = Some pal"
  shows "\<exists>f ctx0 seeded ctx n.
     input_file env = Some f \<and>
     ciq_init (alloc_ctx env) (input_file env) (alloc_points env) (alloc_centroids env)
         (env_stale env) k
       = Inr (Some ctx0) \<and>
     ciq_quantize (alloc_distances env) (env_rand_max env) (env_rand env) (env_junk env) (Some ctx0)
       = Inr (seeded, Some ctx, n) \<and>
     magic img = ''P6'' \<and> maxval img = 255 \<and>
     ppm_width img = ppm_width f \<and> ppm_height img = ppm_height f \<and>
     length (points ctx) = nat (ppm_width f * ppm_height f) \<and>
     length (raster img) = 3 * nat (ppm_width f * ppm_height f) \<and>
     length (centroids ctx) = nat k \<and>
     length pal = 3 * nat k \<and>
     (\<forall>i < length (points ctx).
        0 \<le> cluster (points ctx ! i) \<and> cluster (points ctx ! i) < k \<and>
        take 3 (drop (3 * i) (raster img)) = rgb_bytes (centroids ctx ! nat (cluster (points ctx ! i))) \<and>
        take 3 (drop (3 * i) (raster img)) = take 3 (drop (3 * nat (cluster (points ctx ! i))) pal)) \<and>
     (\<forall>j < nat k. take 3 (drop (3 * j) pal) = rgb_bytes (centroids ctx ! j))"
proof -
  from assms(1) obtain ctx0 seeded r1 n written where
    init: "ciq_init (alloc_ctx env) (input_file env) (alloc_points env) (alloc_centroids env)
         (env_stale env) k
             = Inr (Some ctx0)"
    and q: "ciq_quantize (alloc_distances env) (env_rand_max env) (env_rand env) (env_junk env) (Some ctx0)
             = Inr (seeded, r1, n)"
    and rm: "ciq_remap (output_writable env) (palette_writable env) r1 = Inr (written, files)"
    using assms(2)
    by (auto simp: ciq_quanization_def no_files_def simp del: ciq_quantize.simps ciq_remap.simps
             split: sum.splits option.splits prod.splits)
  from ciq_init_partial[OF init] obtain f where f: "input_file env = Some f"
    and i0: "width ctx0 = ppm_width f" "height ctx0 = ppm_height f"
      "size' ctx0 = ppm_width f * ppm_height f" "K ctx0 = k"
      "length (points ctx0) = nat (size' ctx0)" "length (centroids ctx0) = nat k"
    by blast
  from ciq_quantize_partial[OF q] obtain ctx where r1: "r1 = Some ctx" and fr: "same_frame ctx0 ctx"
    by blast
  note sf = same_frame_lengths[OF fr]
  from ciq_remap_written[OF rm[unfolded r1] assms(2,3)]
  have rp: "remap_pixels (points ctx) (centroids ctx) (size' ctx) 0 [] = Inr (raster img)"
    and pe: "palette_entries (centroids ctx) (K ctx) 0 [] = Inr pal"
    and hd: "ppm_width img = width ctx" "ppm_height img = height ctx" "magic img = ''P6''" "maxval img = 255"
    by simp_all
  have lp: "length (points ctx) = nat (size' ctx)" using sf i0 by simp
  have lc: "length (centroids ctx) = nat (K ctx)" using sf i0 by simp
  from remap_pixels_spec[OF rp _ lp]
  have body: "raster img = concat (map (\<lambda>p. rgb_bytes (centroids ctx ! nat (cluster p))) (points ctx))"
    and lab: "\<And>p. p \<in> set (points ctx) \<Longrightarrow> 0 \<le> cluster p \<and> cluster p < int (length (centroids ctx))"
    by simp_all
  from palette_entries_spec[OF pe _ lc]
  have pal: "pal = concat (map rgb_bytes (centroids ctx))" by simp
  have l1: "length (raster img) = 3 * nat (ppm_width f * ppm_height f)"
    unfolding body using lp sf i0 by (simp add: length_concat_triples length_rgb_bytes)
  have l2: "length pal = 3 * nat k"
    unfolding pal using lc sf i0 by (simp add: length_concat_triples length_rgb_bytes)
  have ent: "take 3 (drop (3 * j) pal) = rgb_bytes (centroids ctx ! j)" if "j < nat k" for j
    unfolding pal using that lc sf i0 by (intro concat_triples_nth) (simp_all add: length_rgb_bytes)
  have pix: "0 \<le> cluster (points ctx ! i) \<and> cluster (points ctx ! i) < k \<and>
        take 3 (drop (3 * i) (raster img)) = rgb_bytes (centroids ctx ! nat (cluster (points ctx ! i))) \<and>
        take 3 (drop (3 * i) (raster img)) = take 3 (drop (3 * nat (cluster (points ctx ! i))) pal)"
    if i: "i < length (points ctx)" for i
  proof -
    from lab[of "points ctx ! i"] i have c: "0 \<le> cluster (points ctx ! i)"
      "cluster (points ctx ! i) < int (length (centroids ctx))" by simp_all
    have "length (centroids ctx) = nat k" using lc sf i0 by simp
    with c(2) have "cluster (points ctx ! i) < int (nat k)" by simp
    with c(1) have ck: "cluster (points ctx ! i) < k" "nat (cluster (points ctx ! i)) < nat k"
      by linarith+
    have "take 3 (drop (3 * i) (raster img)) = rgb_bytes (centroids ctx ! nat (cluster (points ctx ! i)))"
      unfolding body using i
      by (rule concat_triples_nth[rotated]) (simp add: length_rgb_bytes)
    with c ck ent[OF ck(2)] show ?thesis by simp
  qed
  have dims: "ppm_width img = ppm_width f" "ppm_height img = ppm_height f"
    using hd sf i0 by simp_all
  have lpf: "length (points ctx) = nat (ppm_width f * ppm_height f)" using lp sf i0 by simp
  have lck: "length (centroids ctx) = nat k" using lc sf i0 by simp
  have pixA: "\<forall>i < length (points ctx).
        0 \<le> cluster (points ctx ! i) \<and> cluster (points ctx ! i) < k \<and>
        take 3 (drop (3 * i) (raster img)) = rgb_bytes (centroids ctx ! nat (cluster (points ctx ! i))) \<and>
        take 3 (drop (3 * i) (raster img)) = take 3 (drop (3 * nat (cluster (points ctx ! i))) pal)"
    using pix by blast
  have entA: "\<forall>j < nat k. take 3 (drop (3 * j) pal) = rgb_bytes (centroids ctx ! j)"
    using ent by blast
  note q' = q[unfolded r1]
  show ?thesis
    by (rule exI[of _ f], rule exI[of _ ctx0], rule exI[of _ seeded], rule exI[of _ ctx],
        rule exI[of _ n])
       (intro conjI f init q' hd(3,4) dims lpf l1 lck l2 pixA entA)
qed

theorem output_pixels_are_palette_entries_witness:
  "ciq_quanization ex_env 3 = Inr (True, ex_files) \<and>
   image_file ex_files = Some ex_output \<and>
   palette_file ex_files = Some [15, 0, 0,  8, 0, 0,  22, 0, 0] \<and>
   (\<exists>f ctx0 seeded ctx n.
     input_file ex_env = Some f \<and>
     ciq_init (alloc_ctx ex_env) (input_file ex_env) (alloc_points ex_env) (alloc_centroids ex_env)
         (env_stale ex_env) 3
       = Inr (Some ctx0) \<and>
     ciq_quantize (alloc_distances ex_env) (env_rand_max ex_env) (env_rand ex_env) (env_junk ex_env)
         (Some ctx0)
       = Inr (seeded, Some ctx, n) \<and>
     magic ex_output = ''P6'' \<and> maxval ex_output = 255 \<and>
     ppm_width ex_output = ppm_width f \<and> ppm_height ex_output = ppm_height f \<and>
     length (points ctx) = nat (ppm_width f * ppm_height f) \<and>
     length (raster ex_output) = 3 * nat (ppm_width f * ppm_height f) \<and>
     length (centroids ctx) = nat 3 \<and>
     length [15, 0, 0,  8, 0, 0,  22, 0, 0 :: byte] = 3 * nat 3 \<and>
     (\<forall>i < length (points ctx).
        0 \<le> cluster (points ctx ! i) \<and> cluster (points ctx ! i) < 3 \<and>
        take 3 (drop (3 * i) (raster ex_output))
          = rgb_bytes (centroids ctx ! nat (cluster (points ctx ! i))) \<and>
        take 3 (drop (3 * i) (raster ex_output))
          = take 3 (drop (3 * nat (cluster (points ctx ! i))) [15, 0, 0,  8, 0, 0,  22, 0, 0])) \<and>
     (\<forall>j < nat 3. take 3 (drop (3 * j) [15, 0, 0,  8, 0, 0,  22, 0, 0])
                     = rgb_bytes (centroids ctx ! j)))"
proof -
  have h1: "ciq_quanization ex_env 3 = Inr (True, ex_files)"
    by code_simp
  have h2: "image_file ex_files = Some ex_output"
    by (simp add: ex_files_def)
  have h3: "palette_file ex_files = Some [15, 0, 0,  8, 0, 0,  22, 0, 0]"
    by (simp add: ex_files_def)
  from output_pixels_are_palette_entries[OF h1 h2 h3] h1 h2 h3
  show ?thesis by blast
qed

end
